theory Spec2Isabelle
  imports Complex_Main "HOL-Library.Word" "HOL-Library.Log_Nat"
begin

unbundle bit_operations_syntax

section \<open>Texts\<close>

text \<open>
  A Python \<open>str\<close> is modelled as a \<open>string\<close>, each \<open>char\<close> read as the code point
  of the same number (0..255, the Latin-1 range). The character classes below are those
  of CPython 3 on that range. A Python \<open>float\<close> is modelled as the real number it
  stands for, with the rounding of each operation written out. Paths are POSIX paths.
\<close>

type_synonym u8 = "8 word"
type_synonym u32 = "32 word"

definition code_point :: "char \<Rightarrow> nat" where
  "code_point c = of_char c"

subsection \<open>\<open>str.encode()\<close>: UTF-8\<close>

definition utf8_encode_char :: "char \<Rightarrow> u8 list" where
  "utf8_encode_char c =
     (let n = code_point c
      in if n < 128 then [of_nat n]
         else [of_nat (192 + n div 64), of_nat (128 + n mod 64)])"

definition encode :: "string \<Rightarrow> u8 list" where
  "encode s = concat (map utf8_encode_char s)"

subsection \<open>\<open>hashlib.md5(...).hexdigest()\<close>: RFC 1321\<close>

definition md5_K :: "u32 list" where
  "md5_K =
    [0xd76aa478, 0xe8c7b756, 0x242070db, 0xc1bdceee, 0xf57c0faf, 0x4787c62a, 0xa8304613, 0xfd469501,
     0x698098d8, 0x8b44f7af, 0xffff5bb1, 0x895cd7be, 0x6b901122, 0xfd987193, 0xa679438e, 0x49b40821,
     0xf61e2562, 0xc040b340, 0x265e5a51, 0xe9b6c7aa, 0xd62f105d, 0x02441453, 0xd8a1e681, 0xe7d3fbc8,
     0x21e1cde6, 0xc33707d6, 0xf4d50d87, 0x455a14ed, 0xa9e3e905, 0xfcefa3f8, 0x676f02d9, 0x8d2a4c8a,
     0xfffa3942, 0x8771f681, 0x6d9d6122, 0xfde5380c, 0xa4beea44, 0x4bdecfa9, 0xf6bb4b60, 0xbebfbc70,
     0x289b7ec6, 0xeaa127fa, 0xd4ef3085, 0x04881d05, 0xd9d4d039, 0xe6db99e5, 0x1fa27cf8, 0xc4ac5665,
     0xf4292244, 0x432aff97, 0xab9423a7, 0xfc93a039, 0x655b59c3, 0x8f0ccc92, 0xffeff47d, 0x85845dd1,
     0x6fa87e4f, 0xfe2ce6e0, 0xa3014314, 0x4e0811a1, 0xf7537e82, 0xbd3af235, 0x2ad7d2bb, 0xeb86d391]"

definition md5_s :: "nat list" where
  "md5_s =
    [7, 12, 17, 22, 7, 12, 17, 22, 7, 12, 17, 22, 7, 12, 17, 22,
     5, 9, 14, 20, 5, 9, 14, 20, 5, 9, 14, 20, 5, 9, 14, 20,
     4, 11, 16, 23, 4, 11, 16, 23, 4, 11, 16, 23, 4, 11, 16, 23,
     6, 10, 15, 21, 6, 10, 15, 21, 6, 10, 15, 21, 6, 10, 15, 21]"

definition rotl32 :: "nat \<Rightarrow> u32 \<Rightarrow> u32" where
  "rotl32 n x = push_bit n x OR drop_bit (32 - n) x"

definition md5_F :: "nat \<Rightarrow> u32 \<Rightarrow> u32 \<Rightarrow> u32 \<Rightarrow> u32" where
  "md5_F i b c d =
     (if i < 16 then (b AND c) OR (NOT b AND d)
      else if i < 32 then (d AND b) OR (NOT d AND c)
      else if i < 48 then b XOR c XOR d
      else c XOR (b OR NOT d))"

definition md5_g :: "nat \<Rightarrow> nat" where
  "md5_g i =
     (if i < 16 then i
      else if i < 32 then (5 * i + 1) mod 16
      else if i < 48 then (3 * i + 5) mod 16
      else (7 * i) mod 16)"

fun md5_op :: "u32 list \<Rightarrow> nat \<Rightarrow> u32 \<times> u32 \<times> u32 \<times> u32 \<Rightarrow> u32 \<times> u32 \<times> u32 \<times> u32" where
  "md5_op m i (a, b, c, d) =
     (let f = md5_F i b c d + a + md5_K ! i + m ! md5_g i
      in (d, b + rotl32 (md5_s ! i) f, b, c))"

fun le_word :: "u8 list \<Rightarrow> u32" where
  "le_word [] = 0"
| "le_word (x # xs) = ucast x + push_bit 8 (le_word xs)"

fun chunk_words :: "nat \<Rightarrow> u8 list \<Rightarrow> u32 list" where
  "chunk_words 0 bs = []"
| "chunk_words (Suc n) bs = le_word (take 4 bs) # chunk_words n (drop 4 bs)"

fun md5_block :: "u32 \<times> u32 \<times> u32 \<times> u32 \<Rightarrow> u8 list \<Rightarrow> u32 \<times> u32 \<times> u32 \<times> u32" where
  "md5_block (a0, b0, c0, d0) blk =
     (case fold (md5_op (chunk_words 16 blk)) [0..<64] (a0, b0, c0, d0) of
        (a, b, c, d) \<Rightarrow> (a0 + a, b0 + b, c0 + c, d0 + d))"

fun md5_blocks :: "nat \<Rightarrow> u32 \<times> u32 \<times> u32 \<times> u32 \<Rightarrow> u8 list \<Rightarrow> u32 \<times> u32 \<times> u32 \<times> u32" where
  "md5_blocks 0 st bs = st"
| "md5_blocks (Suc n) st bs = md5_blocks n (md5_block st (take 64 bs)) (drop 64 bs)"

definition le_bytes :: "nat \<Rightarrow> 'a::len word \<Rightarrow> u8 list" where
  "le_bytes n w = map (\<lambda>i. ucast (drop_bit (8 * i) w)) [0..<n]"

definition md5_pad :: "u8 list \<Rightarrow> u8 list" where
  "md5_pad bs =
     bs @ [0x80] @ replicate ((119 - length bs mod 64) mod 64) 0
        @ le_bytes 8 (8 * of_nat (length bs) :: 64 word)"

definition md5_digest :: "u8 list \<Rightarrow> u8 list" where
  "md5_digest bs =
     (let p = md5_pad bs
      in case md5_blocks (length p div 64) (0x67452301, 0xefcdab89, 0x98badcfe, 0x10325476) p of
           (a, b, c, d) \<Rightarrow> concat (map (le_bytes 4) [a, b, c, d]))"

definition hex_digit :: "nat \<Rightarrow> char" where
  "hex_digit n = ''0123456789abcdef'' ! n"

definition hex_byte :: "u8 \<Rightarrow> string" where
  "hex_byte b = [hex_digit (unat b div 16), hex_digit (unat b mod 16)]"

definition md5_hexdigest :: "u8 list \<Rightarrow> string" where
  "md5_hexdigest bs = concat (map hex_byte (md5_digest bs))"

subsection \<open>\<open>re.sub(r'\b\w+\b', repl, s)\<close>\<close>

text \<open>
  \<open>\w\<close> on a \<open>str\<close> pattern: the alphanumeric code points and the underscore.
\<close>

definition word_char :: "char \<Rightarrow> bool" where
  "word_char c =
     (let n = code_point c
      in (0x30 \<le> n \<and> n \<le> 0x39) \<or> (0x41 \<le> n \<and> n \<le> 0x5a) \<or> n = 0x5f
         \<or> (0x61 \<le> n \<and> n \<le> 0x7a) \<or> n = 0xaa \<or> n = 0xb2 \<or> n = 0xb3 \<or> n = 0xb5
         \<or> n = 0xb9 \<or> n = 0xba \<or> (0xbc \<le> n \<and> n \<le> 0xbe) \<or> (0xc0 \<le> n \<and> n \<le> 0xd6)
         \<or> (0xd8 \<le> n \<and> n \<le> 0xf6) \<or> 0xf8 \<le> n)"

text \<open>
  A match of \<open>\b\w+\b\<close> starts at a word character that follows a non-word character (or
  the start) and, \<open>\w+\<close> being greedy and \<open>\b\<close> holding only at the end of the run, covers
  the whole maximal run; the scan goes on after the match. \<open>repl\<close> maps the matched text
  to its replacement (a constant function for a replacement string without escapes).
\<close>

function re_sub_words :: "(string \<Rightarrow> string) \<Rightarrow> string \<Rightarrow> string" where
  "re_sub_words repl [] = []"
| "re_sub_words repl (c # cs) =
     (if word_char c
      then repl (c # takeWhile word_char cs) @ re_sub_words repl (dropWhile word_char cs)
      else c # re_sub_words repl cs)"
  by pat_completeness auto
termination
  by (relation "measure (\<lambda>(repl, s). length s)")
     (auto simp: le_imp_less_Suc length_dropWhile_le)

subsection \<open>\<open>str.splitlines()\<close>\<close>

definition line_boundary :: "char \<Rightarrow> bool" where
  "line_boundary c =
     (let n = code_point c
      in n = 0x0a \<or> n = 0x0b \<or> n = 0x0c \<or> n = 0x0d \<or> n = 0x1c \<or> n = 0x1d \<or> n = 0x1e
         \<or> n = 0x85)"

text \<open>
  \<open>splitlines_from cur s\<close>: \<open>cur\<close> is the current line so far, reversed. A carriage
  return followed by a line feed is one boundary; the text after the last boundary is a
  line only when it is not empty.
\<close>

fun splitlines_from :: "string \<Rightarrow> string \<Rightarrow> string list" where
  "splitlines_from cur [] = (if cur = [] then [] else [rev cur])"
| "splitlines_from cur (c # cs) =
     (if line_boundary c
      then rev cur #
           (case cs of
              d # ds \<Rightarrow>
                if code_point c = 0x0d \<and> code_point d = 0x0a then splitlines_from [] ds
                else splitlines_from [] cs
            | [] \<Rightarrow> splitlines_from [] cs)
      else splitlines_from (c # cur) cs)"

definition splitlines :: "string \<Rightarrow> string list" where
  "splitlines s = splitlines_from [] s"

section \<open>Fingerprints\<close>

subsection \<open>Syntax trees of the \<open>ast\<close> module\<close>

text \<open>
  A tree as \<open>ast.parse\<close> returns it: \<open>Obj cls fields\<close> is a node of class \<open>cls\<close> with
  its \<open>_fields\<close> in order, \<open>Seq\<close> a Python list, \<open>Str\<close> a string (identifiers are
  strings), \<open>Lit\<close> any other value, by its \<open>repr\<close>.
\<close>

datatype pyast =
    Obj string "(string \<times> pyast) list"
  | Seq "pyast list"
  | Str string
  | Lit string

datatype exn = Exn string

text \<open>
  The external collaborators: the parser and the printer of the \<open>ast\<close> module, the
  file system (\<open>open(path, 'r').read()\<close>), PyMuPDF (\<open>fitz.open\<close>, then one
  \<open>load_page(...).get_text()\<close> per page) and python-docx (\<open>Document\<close>, then one
  \<open>.text\<close> per paragraph). \<open>Inl\<close> is an exception raised by the call; all of them are
  instances of \<open>Exception\<close>.
\<close>

record env =
  ast_parse :: "string \<Rightarrow> exn + pyast"
  ast_dump :: "pyast \<Rightarrow> string"
  read_text :: "string \<Rightarrow> exn + string"
  fitz_open :: "string \<Rightarrow> exn + (exn + string) list"
  docx_open :: "string \<Rightarrow> exn + (exn + string) list"

text \<open>
  The loop over \<open>ast.walk(tree)\<close>: the walk reaches a node, the nodes that are values of
  its fields and the nodes that are items of a list-valued field, and so on from those.
  A \<open>FunctionDef\<close> or \<open>ClassDef\<close> gets its \<open>name\<close> overwritten, an \<open>arg\<close> its
  \<open>arg\<close>, a \<open>Name\<close> its \<open>id\<close>.
\<close>

definition redacted_field :: "string \<Rightarrow> string \<Rightarrow> bool" where
  "redacted_field cls k =
     (if cls = ''FunctionDef'' \<or> cls = ''ClassDef'' then k = ''name''
      else if cls = ''arg'' then k = ''arg''
      else if cls = ''Name'' then k = ''id''
      else False)"

datatype place = Field | Item

fun redact :: "place \<Rightarrow> pyast \<Rightarrow> pyast" where
  "redact pl (Obj cls fs) =
     Obj cls (map (\<lambda>kv. (fst kv,
                          if redacted_field cls (fst kv) then Str ''REDACTED''
                          else redact Field (snd kv))) fs)"
| "redact Field (Seq xs) = Seq (map (redact Item) xs)"
| "redact Item (Seq xs) = Seq xs"
| "redact pl (Str s) = Str s"
| "redact pl (Lit r) = Lit r"

definition md5 :: "string \<Rightarrow> string" where
  "md5 s = md5_hexdigest (encode s)"

text \<open>
  The whole body is inside the \<open>try\<close>: an exception of the parser gives \<open>None\<close>, and
  so does a parse result that is not a node, on which the walk raises \<open>AttributeError\<close>.
  The message printed on the way is not part of the model.
\<close>

definition get_ast_hash :: "env \<Rightarrow> string \<Rightarrow> string option" where
  "get_ast_hash ev code =
     (case ast_parse ev code of
        Inl e \<Rightarrow> None
      | Inr tree \<Rightarrow>
          (case tree of
             Obj cls fs \<Rightarrow> Some (md5 (ast_dump ev (redact Field tree)))
           | _ \<Rightarrow> None))"

definition get_text_hash :: "string \<Rightarrow> string" where
  "get_text_hash text = md5 (re_sub_words (\<lambda>m. ''TOKEN'') text)"

definition get_tokens :: "string \<Rightarrow> string" where
  "get_tokens code = (let code' = re_sub_words (\<lambda>m. ''TOKEN'') code in md5 code')"

section \<open>Text extraction\<close>

subsection \<open>\<open>os.path.splitext\<close> (POSIX), \<open>str.lstrip('.')\<close>, \<open>str.lower()\<close>\<close>

fun rfind :: "char \<Rightarrow> string \<Rightarrow> int" where
  "rfind c [] = - 1"
| "rfind c (x # xs) =
     (let r = rfind c xs in if 0 \<le> r then r + 1 else if x = c then 0 else - 1)"

text \<open>
  The extension starts at the last dot, provided that dot comes after the last slash and
  some character between that slash and the dot is not a dot.
\<close>

definition splitext :: "string \<Rightarrow> string \<times> string" where
  "splitext p =
     (let sepIndex = rfind CHR ''/'' p; dotIndex = rfind CHR ''.'' p
      in if sepIndex < dotIndex
            \<and> list_ex (\<lambda>i. p ! i \<noteq> CHR ''.'') [nat (sepIndex + 1)..<nat dotIndex]
         then (take (nat dotIndex) p, drop (nat dotIndex) p)
         else (p, []))"

definition lstrip_dots :: "string \<Rightarrow> string" where
  "lstrip_dots s = dropWhile (\<lambda>c. c = CHR ''.'') s"

definition lower_char :: "char \<Rightarrow> char" where
  "lower_char c =
     (let n = code_point c
      in if (0x41 \<le> n \<and> n \<le> 0x5a) \<or> (0xc0 \<le> n \<and> n \<le> 0xd6) \<or> (0xd8 \<le> n \<and> n \<le> 0xde)
         then char_of (n + 32) else c)"

definition lower :: "string \<Rightarrow> string" where
  "lower s = map lower_char s"

subsection \<open>The extractors\<close>

text \<open>
  The body of each \<open>try\<close> adds to \<open>text\<close> item by item; an exception ends the loop and
  the text gathered so far is returned.
\<close>

fun pdf_pages :: "string \<Rightarrow> (exn + string) list \<Rightarrow> string" where
  "pdf_pages text [] = text"
| "pdf_pages text (Inl e # pages) = text"
| "pdf_pages text (Inr t # pages) = pdf_pages (text @ t) pages"

definition extract_text_from_pdf :: "env \<Rightarrow> string \<Rightarrow> string" where
  "extract_text_from_pdf ev file_path =
     (case fitz_open ev file_path of
        Inl e \<Rightarrow> []
      | Inr pages \<Rightarrow> pdf_pages [] pages)"

fun docx_paragraphs :: "string \<Rightarrow> (exn + string) list \<Rightarrow> string" where
  "docx_paragraphs text [] = text"
| "docx_paragraphs text (Inl e # paragraphs) = text"
| "docx_paragraphs text (Inr t # paragraphs) =
     docx_paragraphs (text @ t @ [CHR 0x0A]) paragraphs"

definition extract_text_from_docx :: "env \<Rightarrow> string \<Rightarrow> string" where
  "extract_text_from_docx ev file_path =
     (case docx_open ev file_path of
        Inl e \<Rightarrow> []
      | Inr paragraphs \<Rightarrow> docx_paragraphs [] paragraphs)"

definition file_ext :: "string \<Rightarrow> string" where
  "file_ext file_path = lower (lstrip_dots (snd (splitext file_path)))"

definition get_text_from_file :: "env \<Rightarrow> string \<Rightarrow> exn + string" where
  "get_text_from_file ev file_path =
     (let ext = file_ext file_path
      in if ext = ''pdf'' then Inr (extract_text_from_pdf ev file_path)
         else if ext = ''docx'' then Inr (extract_text_from_docx ev file_path)
         else read_text ev file_path)"

section \<open>The comparators\<close>

text \<open>
  The two hashes of a line, \<open>(normalized_hash, tokenized_hash)\<close>, as each of the four
  loops computes them; \<open>None\<close> is Python's \<open>None\<close>.
\<close>

definition line_hashes :: "env \<Rightarrow> bool \<Rightarrow> string \<Rightarrow> string option \<times> string option" where
  "line_hashes ev is_code line =
     (if is_code then (get_ast_hash ev line, Some (get_tokens line))
      else (Some (get_text_hash line), None))"

text \<open>Truth value of a hash: \<open>None\<close> and the empty string are false.\<close>

fun truthy :: "string option \<Rightarrow> bool" where
  "truthy None = False"
| "truthy (Some h) = (h \<noteq> [])"

subsection \<open>\<open>compare_files\<close>: the index is a dictionary\<close>

text \<open>\<open>if h: hash_table[h] = line\<close>\<close>

fun dict_store :: "string option \<Rightarrow> string \<Rightarrow> (string \<rightharpoonup> string) \<Rightarrow> (string \<rightharpoonup> string)" where
  "dict_store None line tbl = tbl"
| "dict_store (Some h) line tbl = (if h \<noteq> [] then tbl(h \<mapsto> line) else tbl)"

text \<open>\<open>h in hash_table\<close>; the keys are strings, so \<open>None\<close> is not among them.\<close>

fun dict_has :: "string option \<Rightarrow> (string \<rightharpoonup> string) \<Rightarrow> bool" where
  "dict_has None tbl = False"
| "dict_has (Some h) tbl = (tbl h \<noteq> None)"

definition dict_index_line :: "env \<Rightarrow> bool \<Rightarrow> string \<Rightarrow> (string \<rightharpoonup> string) \<Rightarrow> (string \<rightharpoonup> string)" where
  "dict_index_line ev is_code line tbl =
     (case line_hashes ev is_code line of
        (normalized_hash, tokenized_hash) \<Rightarrow>
          dict_store tokenized_hash line (dict_store normalized_hash line tbl))"

definition dict_probe_line :: "env \<Rightarrow> bool \<Rightarrow> (string \<rightharpoonup> string) \<Rightarrow> string \<Rightarrow> nat \<times> string list \<Rightarrow> nat \<times> string list" where
  "dict_probe_line ev is_code tbl line acc =
     (case line_hashes ev is_code line of
        (normalized_hash, tokenized_hash) \<Rightarrow>
          if dict_has normalized_hash tbl \<or> (truthy tokenized_hash \<and> dict_has tokenized_hash tbl)
          then (fst acc + 1, snd acc @ [line])
          else acc)"

record overlap_result =
  overlap_percentage :: real
  overlap_count :: nat
  overlapping_lines :: "string list"

subsection \<open>Double-precision arithmetic\<close>

text \<open>
  A Python \<open>float\<close> is an IEEE 754 double: a significand of 53 bits and a power of two.
  \<open>round_double p q k\<close> is the double nearest to \<open>(p / q) * 2 ^ k\<close>, for \<open>p \<ge> 0\<close> and
  \<open>q > 0\<close>, as the pair of its significand and its exponent; a tie goes to the even
  significand. \<open>bitlen\<close> is \<open>int.bit_length\<close>. The exponent is not bounded here: the
  values of the program, a quotient of two line counts and its product with 100, stay in
  the normal range of a double.
\<close>

definition round_half_even :: "int \<Rightarrow> int \<Rightarrow> int" where
  "round_half_even a b =
     (let m = a div b; r = a mod b
      in if 2 * r < b then m else if b < 2 * r then m + 1 else if even m then m else m + 1)"

definition round_double :: "int \<Rightarrow> int \<Rightarrow> int \<Rightarrow> int \<times> int" where
  "round_double p q k =
     (if p = 0 then (0, 0)
      else
        let s = 53 + bitlen q - bitlen p;
            a = (if 0 \<le> s then p * 2 ^ nat s else p);
            b = (if 0 \<le> s then q else q * 2 ^ nat (- s))
        in if b * 2 ^ 53 \<le> a then (round_half_even a (2 * b), k - (s - 1))
           else (round_half_even a b, k - s))"

definition double_value :: "int \<times> int \<Rightarrow> real" where
  "double_value d = of_int (fst d) * power_int 2 (snd d)"

text \<open>
  The conversion of an \<open>int\<close> to a \<open>float\<close>, the true division \<open>a / b\<close> of two
  \<open>int\<close>s (CPython rounds the exact quotient once) and the product of two \<open>float\<close>s.
\<close>

definition float_of_int :: "int \<Rightarrow> int \<times> int" where
  "float_of_int n = round_double n 1 0"

definition float_truediv :: "int \<Rightarrow> int \<Rightarrow> int \<times> int" where
  "float_truediv a b = round_double a b 0"

definition float_mul :: "int \<times> int \<Rightarrow> int \<times> int \<Rightarrow> int \<times> int" where
  "float_mul x y = round_double (fst x * fst y) 1 (snd x + snd y)"

text \<open>\<open>(overlap_count / total_lines) * 100 if total_lines > 0 else 0\<close>\<close>

definition percentage :: "nat \<Rightarrow> nat \<Rightarrow> real" where
  "percentage count total_lines =
     (if total_lines > 0
      then double_value (float_mul (float_truediv (int count) (int total_lines)) (float_of_int 100))
      else 0)"

definition compare_files :: "env \<Rightarrow> string \<Rightarrow> string \<Rightarrow> bool \<Rightarrow> exn + overlap_result" where
  "compare_files ev file1 file2 is_code =
     (case get_text_from_file ev file1 of
        Inl e \<Rightarrow> Inl e
      | Inr content1 \<Rightarrow>
          (case get_text_from_file ev file2 of
             Inl e \<Rightarrow> Inl e
           | Inr content2 \<Rightarrow>
               (let lines1 = splitlines content1;
                    lines2 = splitlines content2;
                    hash_table = fold (dict_index_line ev is_code) lines1 Map.empty;
                    acc = fold (dict_probe_line ev is_code hash_table) lines2 (0, []);
                    total_lines = length lines2
                in Inr \<lparr>overlap_percentage = percentage (fst acc) total_lines,
                        overlap_count = fst acc,
                        overlapping_lines = snd acc\<rparr>)))"

subsection \<open>\<open>compare_two_codes\<close>: the index is a set\<close>

fun set_store :: "string option \<Rightarrow> string set \<Rightarrow> string set" where
  "set_store None tbl = tbl"
| "set_store (Some h) tbl = (if h \<noteq> [] then insert h tbl else tbl)"

fun set_has :: "string option \<Rightarrow> string set \<Rightarrow> bool" where
  "set_has None tbl = False"
| "set_has (Some h) tbl = (h \<in> tbl)"

definition set_index_line :: "env \<Rightarrow> bool \<Rightarrow> string \<Rightarrow> string set \<Rightarrow> string set" where
  "set_index_line ev is_code line tbl =
     (case line_hashes ev is_code line of
        (normalized_hash, tokenized_hash) \<Rightarrow>
          set_store tokenized_hash (set_store normalized_hash tbl))"

definition set_probe_line :: "env \<Rightarrow> bool \<Rightarrow> string set \<Rightarrow> string \<Rightarrow> nat \<Rightarrow> nat" where
  "set_probe_line ev is_code tbl line count =
     (case line_hashes ev is_code line of
        (normalized_hash, tokenized_hash) \<Rightarrow>
          if set_has normalized_hash tbl \<or> (truthy tokenized_hash \<and> set_has tokenized_hash tbl)
          then count + 1
          else count)"

definition compare_two_codes :: "env \<Rightarrow> string \<Rightarrow> string \<Rightarrow> bool \<Rightarrow> real \<times> nat" where
  "compare_two_codes ev code1 code2 is_code =
     (let lines1 = splitlines code1;
          lines2 = splitlines code2;
          hash_table = fold (set_index_line ev is_code) lines1 {};
          count = fold (set_probe_line ev is_code hash_table) lines2 0;
          total_lines = length lines2
      in (percentage count total_lines, count))"

section \<open>The batch grouper\<close>

fun read_code_files_from :: "env \<Rightarrow> (string \<rightharpoonup> string) \<Rightarrow> string list \<Rightarrow> exn + (string \<rightharpoonup> string)" where
  "read_code_files_from ev code_contents [] = Inr code_contents"
| "read_code_files_from ev code_contents (file_path # file_paths) =
     (case get_text_from_file ev file_path of
        Inl e \<Rightarrow> Inl e
      | Inr text \<Rightarrow> read_code_files_from ev (code_contents(file_path \<mapsto> text)) file_paths)"

definition read_code_files :: "env \<Rightarrow> string list \<Rightarrow> exn + (string \<rightharpoonup> string)" where
  "read_code_files ev file_paths = read_code_files_from ev Map.empty file_paths"

text \<open>
  \<open>itertools.combinations(xs, 2)\<close>: the pairs of positions \<open>i < j\<close>, in lexicographic
  order.
\<close>

fun combinations2 :: "'a list \<Rightarrow> ('a \<times> 'a) list" where
  "combinations2 [] = []"
| "combinations2 (x # xs) = map (Pair x) xs @ combinations2 xs"

text \<open>
  The loop over the pairs; a missing key of \<open>file_contents\<close> raises \<open>KeyError\<close>.
\<close>

fun similarities :: "env \<Rightarrow> (string \<rightharpoonup> string) \<Rightarrow> (string \<times> string) list \<Rightarrow> exn + (string \<times> string \<times> real) list" where
  "similarities ev file_contents [] = Inr []"
| "similarities ev file_contents ((file1, file2) # pairs) =
     (let is_code = lstrip_dots (snd (splitext file1)) \<notin> set [''txt'', ''pdf'', ''docx'']
      in case file_contents file1 of
           None \<Rightarrow> Inl (Exn ''KeyError'')
         | Some code1 \<Rightarrow>
             (case file_contents file2 of
                None \<Rightarrow> Inl (Exn ''KeyError'')
              | Some code2 \<Rightarrow>
                  (case similarities ev file_contents pairs of
                     Inl e \<Rightarrow> Inl e
                   | Inr rest \<Rightarrow>
                       Inr ((file1, file2, fst (compare_two_codes ev code1 code2 is_code)) # rest))))"

text \<open>
  \<open>sorted(xs, key=key, reverse=True)\<close>: CPython reverses the list, sorts it stably in
  ascending order of the key and reverses the result.
\<close>

definition sorted_reverse :: "('a \<Rightarrow> real) \<Rightarrow> 'a list \<Rightarrow> 'a list" where
  "sorted_reverse key xs = rev (sort_key key (rev xs))"

definition group_similar_files :: "env \<Rightarrow> string list \<Rightarrow> exn + (string \<times> string \<times> real) list" where
  "group_similar_files ev file_paths =
     (case read_code_files ev file_paths of
        Inl e \<Rightarrow> Inl e
      | Inr file_contents \<Rightarrow>
          (case similarities ev file_contents (combinations2 file_paths) of
             Inl e \<Rightarrow> Inl e
           | Inr sims \<Rightarrow> Inr (sorted_reverse (\<lambda>x. snd (snd x)) sims)))"

section \<open>Notions used in the statements\<close>

text \<open>
  The fingerprint set of a line: the hashes of the line that are true as Python values.
  The index of a document is the union over its lines; a probe line is matched when one
  of its fingerprints is in the index.
\<close>

definition fingerprints :: "env \<Rightarrow> bool \<Rightarrow> string \<Rightarrow> string set" where
  "fingerprints ev is_code line =
     {h. h \<noteq> [] \<and> (fst (line_hashes ev is_code line) = Some h
                     \<or> snd (line_hashes ev is_code line) = Some h)}"

definition index_keys :: "env \<Rightarrow> bool \<Rightarrow> string list \<Rightarrow> string set" where
  "index_keys ev is_code lines = (\<Union>line \<in> set lines. fingerprints ev is_code line)"

definition matched :: "env \<Rightarrow> bool \<Rightarrow> string list \<Rightarrow> string \<Rightarrow> bool" where
  "matched ev is_code lines1 line =
     (fingerprints ev is_code line \<inter> index_keys ev is_code lines1 \<noteq> {})"

text \<open>The pairs of positions \<open>i < j < n\<close> in lexicographic order.\<close>

definition index_pairs :: "nat \<Rightarrow> (nat \<times> nat) list" where
  "index_pairs n = concat (map (\<lambda>i. map (Pair i) [Suc i..<n]) [0..<n])"

text \<open>
  A renaming of identifiers maps every word of a line to a word: a non-empty string of
  word characters.
\<close>

definition is_word :: "string \<Rightarrow> bool" where
  "is_word w = (w \<noteq> [] \<and> list_all word_char w)"

definition renaming :: "(string \<Rightarrow> string) \<Rightarrow> bool" where
  "renaming \<sigma> = (\<forall>w. is_word w \<longrightarrow> is_word (\<sigma> w))"

subsection \<open>A sample environment\<close>

text \<open>
  The printer in the format of \<open>ast.dump\<close> (CPython 3.9 to 3.12), and the trees CPython
  returns for the lines of the examples; every other line is taken as a syntax error, as
  the two JavaScript lines of the examples are. The file system holds the listed text
  files; no PDF or DOCX container can be opened.
\<close>

fun join_comma :: "string list \<Rightarrow> string" where
  "join_comma [] = []"
| "join_comma [x] = x"
| "join_comma (x # y # ys) = x @ '', '' @ join_comma (y # ys)"

fun py_dump :: "pyast \<Rightarrow> string" where
  "py_dump (Obj cls fs) =
     cls @ ''('' @ join_comma (map (\<lambda>kv. fst kv @ ''='' @ py_dump (snd kv)) fs) @ '')''"
| "py_dump (Seq xs) = ''['' @ join_comma (map py_dump xs) @ '']''"
| "py_dump (Str s) = [CHR 0x27] @ s @ [CHR 0x27]"
| "py_dump (Lit r) = r"

definition sample_assign :: "string \<Rightarrow> string \<Rightarrow> pyast" where
  "sample_assign name val =
     Obj ''Module''
       [(''body'',
         Seq [Obj ''Assign''
                [(''targets'', Seq [Obj ''Name'' [(''id'', Str name), (''ctx'', Obj ''Store'' [])]]),
                 (''value'', Obj ''Constant'' [(''value'', Lit val)])]]),
        (''type_ignores'', Seq [])]"

definition sample_def :: "string \<Rightarrow> string \<Rightarrow> pyast" where
  "sample_def name param =
     Obj ''Module''
       [(''body'',
         Seq [Obj ''FunctionDef''
                [(''name'', Str name),
                 (''args'',
                  Obj ''arguments''
                    [(''posonlyargs'', Seq []),
                     (''args'', Seq [Obj ''arg'' [(''arg'', Str param)]]),
                     (''kwonlyargs'', Seq []),
                     (''kw_defaults'', Seq []),
                     (''defaults'', Seq [])]),
                 (''body'',
                  Seq [Obj ''Return''
                         [(''value'',
                           Obj ''BinOp''
                             [(''left'', Obj ''Name'' [(''id'', Str param), (''ctx'', Obj ''Load'' [])]),
                              (''op'', Obj ''Add'' []),
                              (''right'', Obj ''Constant'' [(''value'', Lit ''1'')])])]]),
                 (''decorator_list'', Seq [])]]),
        (''type_ignores'', Seq [])]"

definition sample_import :: "string \<Rightarrow> pyast" where
  "sample_import name =
     Obj ''Module''
       [(''body'', Seq [Obj ''Import'' [(''names'', Seq [Obj ''alias'' [(''name'', Str name)]])]]),
        (''type_ignores'', Seq [])]"

definition sample_parse :: "string \<Rightarrow> exn + pyast" where
  "sample_parse code =
     (if code = ''x = 1'' then Inr (sample_assign ''x'' ''1'')
      else if code = ''y = 2'' then Inr (sample_assign ''y'' ''2'')
      else if code = ''z = 3'' then Inr (sample_assign ''z'' ''3'')
      else if code = ''def foo(x): return x+1'' then Inr (sample_def ''foo'' ''x'')
      else if code = ''def bar(y): return y+1'' then Inr (sample_def ''bar'' ''y'')
      else if code = ''import ab'' then Inr (sample_import ''ab'')
      else if code = ''import a'' @ [CHR 0xB7] @ ''b''
      then Inr (sample_import (''a'' @ [CHR 0xB7] @ ''b''))
      else Inl (Exn ''SyntaxError''))"

definition files_env :: "(string \<times> string) list \<Rightarrow> env" where
  "files_env files =
     \<lparr>ast_parse = sample_parse,
      ast_dump = py_dump,
      read_text = (\<lambda>p. case map_of files p of
                          None \<Rightarrow> Inl (Exn ''FileNotFoundError'')
                        | Some text \<Rightarrow> Inr text),
      fitz_open = (\<lambda>p. Inl (Exn ''FileNotFoundError'')),
      docx_open = (\<lambda>p. Inl (Exn ''PackageNotFoundError''))\<rparr>"

text \<open>The renaming of the example: \<open>foo\<close> becomes \<open>bar\<close> and \<open>x\<close> becomes \<open>y\<close>.\<close>

definition rename_foo_bar :: "string \<Rightarrow> string" where
  "rename_foo_bar w = (if w = ''foo'' then ''bar'' else if w = ''x'' then ''y'' else w)"

text \<open>The texts of the pages or paragraphs that come before the first failing one.\<close>

fun gathered :: "(exn + string) list \<Rightarrow> string list" where
  "gathered [] = []"
| "gathered (Inl e # items) = []"
| "gathered (Inr t # items) = t # gathered items"

text \<open>
  An environment with failures: no text file can be read, the PDF \<open>scan.pdf\<close> opens and
  fails at its second page, the DOCX \<open>essay.DOCX\<close> opens and has two paragraphs, and no
  other container can be opened.
\<close>

definition flaky_env :: env where
  "flaky_env =
     \<lparr>ast_parse = sample_parse,
      ast_dump = py_dump,
      read_text = (\<lambda>p. Inl (Exn ''FileNotFoundError'')),
      fitz_open = (\<lambda>p. if p = ''scan.pdf''
                         then Inr [Inr ''page one'', Inl (Exn ''RuntimeError''), Inr ''page three'']
                         else Inl (Exn ''FileDataError'')),
      docx_open = (\<lambda>p. if p = ''essay.DOCX''
                         then Inr [Inr ''first'', Inr ''second'']
                         else Inl (Exn ''PackageNotFoundError''))\<rparr>"

section \<open>The index and the probe\<close>

lemma length_hex: "length (concat (map hex_byte xs)) = 2 * length xs"
  by (induction xs) (simp_all add: hex_byte_def)

lemma length_md5_digest: "length (md5_digest bs) = 16"
  by (simp add: md5_digest_def Let_def le_bytes_def split: prod.split)

lemma length_md5: "length (md5 s) = 32"
  by (simp add: md5_def md5_hexdigest_def length_hex length_md5_digest)

lemma md5_nonempty: "md5 s \<noteq> []"
  using length_md5 [of s] by auto

lemma set_store_eq: "set_store h tbl = tbl \<union> {x. x \<noteq> [] \<and> h = Some x}"
  by (cases h) auto

lemma set_index_line_eq:
  "set_index_line ev c line tbl = tbl \<union> fingerprints ev c line"
  by (auto simp: set_index_line_def fingerprints_def set_store_eq split: prod.splits)

lemma fold_set_index:
  "fold (set_index_line ev c) ls tbl = tbl \<union> index_keys ev c ls"
  by (induction ls arbitrary: tbl) (auto simp: index_keys_def set_index_line_eq)

lemma dom_dict_store: "dom (dict_store h line tbl) = set_store h (dom tbl)"
  by (cases h) auto

lemma dom_dict_index_line:
  "dom (dict_index_line ev c line tbl) = set_index_line ev c line (dom tbl)"
  by (simp add: dict_index_line_def set_index_line_def dom_dict_store split: prod.splits)

lemma dom_fold_dict_index:
  "dom (fold (dict_index_line ev c) ls tbl) = fold (set_index_line ev c) ls (dom tbl)"
  by (induction ls arbitrary: tbl) (simp_all add: dom_dict_index_line)

lemma dict_has_dom: "dict_has h tbl = set_has h (dom tbl)"
  by (cases h) (auto simp: dom_def)

lemma index_keys_nonempty: "h \<in> index_keys ev c ls \<Longrightarrow> h \<noteq> []"
  by (auto simp: index_keys_def fingerprints_def)

lemma hit_matched:
  assumes "line_hashes ev c line = (n, t)"
  shows "(set_has n (index_keys ev c ls) \<or> (truthy t \<and> set_has t (index_keys ev c ls)))
         = matched ev c ls line"
  using index_keys_nonempty [where ev=ev and c=c and ls=ls]
  by (cases n; cases t) (auto simp: assms matched_def fingerprints_def)

lemma set_probe_line_eq:
  "set_probe_line ev c (index_keys ev c ls) line k
   = (if matched ev c ls line then k + 1 else k)"
proof (cases "line_hashes ev c line")
  case (Pair n t)
  from hit_matched [OF Pair, of ls] show ?thesis
    by (simp add: set_probe_line_def Pair)
qed

lemma dict_probe_line_eq:
  assumes "dom tbl = index_keys ev c ls"
  shows "dict_probe_line ev c tbl line acc
   = (if matched ev c ls line then (fst acc + 1, snd acc @ [line]) else acc)"
proof (cases "line_hashes ev c line")
  case (Pair n t)
  from hit_matched [OF Pair, of ls] show ?thesis
    by (simp add: dict_probe_line_def Pair dict_has_dom assms)
qed

lemma fold_set_probe:
  "fold (set_probe_line ev c (index_keys ev c ls)) ls2 k
   = k + length (filter (matched ev c ls) ls2)"
  by (induction ls2 arbitrary: k) (simp_all add: set_probe_line_eq)

lemma fold_dict_probe:
  "dom tbl = index_keys ev c ls \<Longrightarrow>
   fold (dict_probe_line ev c tbl) ls2 acc
   = (fst acc + length (filter (matched ev c ls) ls2), snd acc @ filter (matched ev c ls) ls2)"
  by (induction ls2 arbitrary: acc) (simp_all add: dict_probe_line_eq)

lemma compare_two_codes_eq:
  "compare_two_codes ev code1 code2 c =
     (percentage (length (filter (matched ev c (splitlines code1)) (splitlines code2)))
                 (length (splitlines code2)),
      length (filter (matched ev c (splitlines code1)) (splitlines code2)))"
  by (simp add: compare_two_codes_def Let_def fold_set_index fold_set_probe)

lemma compare_files_eq:
  assumes "get_text_from_file ev file1 = Inr content1"
    and "get_text_from_file ev file2 = Inr content2"
  shows "compare_files ev file1 file2 c =
     Inr \<lparr>overlap_percentage =
            percentage (length (filter (matched ev c (splitlines content1)) (splitlines content2)))
                       (length (splitlines content2)),
          overlap_count = length (filter (matched ev c (splitlines content1)) (splitlines content2)),
          overlapping_lines = filter (matched ev c (splitlines content1)) (splitlines content2)\<rparr>"
proof -
  have "dom (fold (dict_index_line ev c) (splitlines content1) Map.empty)
        = index_keys ev c (splitlines content1)"
    by (simp add: dom_fold_dict_index fold_set_index)
  then show ?thesis
    using assms by (simp add: compare_files_def Let_def fold_dict_probe)
qed

lemma splitlines_from_nonempty:
  "cur \<noteq> [] \<or> s \<noteq> [] \<Longrightarrow> splitlines_from cur s \<noteq> []"
  by (induction s arbitrary: cur) (auto split: list.splits)

lemma splitlines_nonempty: "s \<noteq> [] \<Longrightarrow> splitlines s \<noteq> []"
  by (simp add: splitlines_def splitlines_from_nonempty)

lemma splitlines_Nil: "splitlines [] = []"
  by (simp add: splitlines_def)

lemma token_fingerprint: "get_tokens line \<in> fingerprints ev True line"
  by (simp add: fingerprints_def line_hashes_def get_tokens_def md5_nonempty)

lemma text_fingerprint: "get_text_hash line \<in> fingerprints ev False line"
  by (simp add: fingerprints_def line_hashes_def get_text_hash_def md5_nonempty)

lemma fingerprints_nonempty: "fingerprints ev c line \<noteq> {}"
  using token_fingerprint [of line ev] text_fingerprint [of line ev] by (cases c) auto

lemma matched_self: "line \<in> set ls \<Longrightarrow> matched ev c ls line"
  using fingerprints_nonempty [of ev c line] by (auto simp: matched_def index_keys_def)

lemma matched_by_tokens:
  "l' \<in> set ls \<Longrightarrow> get_tokens line = get_tokens l' \<Longrightarrow> matched ev True ls line"
  using token_fingerprint [of line ev] token_fingerprint [of l' ev]
  by (auto simp: matched_def index_keys_def)

lemma filter_matched_self: "filter (matched ev c ls) ls = ls"
  by (simp add: matched_self)

lemma round_half_even_error:
  assumes "0 < b"
  shows "\<bar>real_of_int (round_half_even a b) - real_of_int a / real_of_int b\<bar> \<le> 1 / 2"
proof -
  let ?m = "a div b" and ?r = "a mod b"
  have q: "real_of_int a / real_of_int b = real_of_int ?m + real_of_int ?r / real_of_int b"
    by (rule of_int_div_aux)
  have r: "0 \<le> ?r" "?r < b"
    using assms by simp_all
  have b: "0 < real_of_int b"
    using assms by simp
  consider "2 * ?r < b" | "b < 2 * ?r" | "2 * ?r = b"
    by linarith
  then show ?thesis
  proof cases
    case 1
    then have "real_of_int ?r / real_of_int b \<le> 1 / 2"
      using b by (simp add: field_simps)
    moreover have "0 \<le> real_of_int ?r / real_of_int b"
      using r b by simp
    ultimately show ?thesis
      using 1 by (simp add: round_half_even_def Let_def q)
  next
    case 2
    then have "1 / 2 \<le> real_of_int ?r / real_of_int b"
      using b by (simp add: field_simps)
    moreover have "real_of_int ?r \<le> real_of_int b"
      using r(2) by (simp only: of_int_le_iff)
    then have "real_of_int ?r / real_of_int b \<le> 1"
      using b by (simp add: field_simps)
    ultimately show ?thesis
      using 2 by (simp add: round_half_even_def Let_def q)
  next
    case 3
    then have "real_of_int b = 2 * real_of_int ?r"
      by (metis of_int_mult of_int_numeral)
    then have h: "real_of_int ?r / real_of_int b = 1 / 2"
      using b by (simp add: field_simps)
    have rhe: "round_half_even a b = (if even ?m then ?m else ?m + 1)"
      using 3 by (simp add: round_half_even_def Let_def)
    show ?thesis
    proof (cases "even ?m")
      case True
      then have "round_half_even a b = ?m"
        by (simp add: rhe)
      then show ?thesis
        by (simp add: q h)
    next
      case False
      then have "round_half_even a b = ?m + 1"
        by (simp add: rhe)
      then show ?thesis
        by (simp add: q h)
    qed
  qed
qed

lemma bitlen_lower: "0 < p \<Longrightarrow> power_int 2 (bitlen p - 1) \<le> real_of_int p"
proof -
  assume p: "0 < p"
  then have "1 \<le> bitlen p"
    by (auto simp: bitlen_alt_def)
  then have "power_int (2::real) (bitlen p - 1) = 2 ^ nat (bitlen p - 1)"
    by (simp add: power_int_def)
  also have "\<dots> = real_of_int (2 ^ nat (bitlen p - 1))"
    by simp
  also have "\<dots> \<le> real_of_int p"
    using bitlen_bounds [OF p] by (simp only: of_int_le_iff)
  finally show ?thesis .
qed

lemma bitlen_upper: "0 < q \<Longrightarrow> real_of_int q \<le> power_int 2 (bitlen q)"
proof -
  assume q: "0 < q"
  have "real_of_int q \<le> real_of_int (2 ^ nat (bitlen q))"
    using bitlen_bounds [OF q] by (simp only: of_int_le_iff) simp
  also have "\<dots> = power_int 2 (bitlen q)"
    using bitlen_nonneg [of q] by (simp add: power_int_def)
  finally show ?thesis .
qed

lemma round_double_error:
  assumes p: "0 < p" and q: "0 < q"
  shows "\<bar>double_value (round_double p q k) - real_of_int p / real_of_int q * power_int 2 k\<bar>
         \<le> real_of_int p / real_of_int q * power_int 2 k / 2 ^ 53"
    and "0 < fst (round_double p q k)"
proof -
  define s where "s = 53 + bitlen q - bitlen p"
  define a where "a = (if 0 \<le> s then p * 2 ^ nat s else p)"
  define b where "b = (if 0 \<le> s then q else q * 2 ^ nat (- s))"
  define t where "t = (if b * 2 ^ 53 \<le> a then s - 1 else s)"
  define c where "c = (if b * 2 ^ 53 \<le> a then 2 * b else b)"
  let ?x = "real_of_int p / real_of_int q"
  have rd: "round_double p q k = (round_half_even a c, k - t)"
    using p by (simp add: round_double_def Let_def s_def a_def b_def c_def t_def)
  have bpos: "0 < b" and cpos: "0 < c"
    using q by (simp_all add: b_def c_def)
  have ab: "real_of_int a / real_of_int b = ?x * power_int 2 s"
    using p q by (simp add: a_def b_def power_int_def field_simps)
  have ac: "real_of_int a / real_of_int c = ?x * power_int 2 t"
  proof (cases "b * 2 ^ 53 \<le> a")
    case True
    have h: "power_int (2::real) (s - 1) = power_int 2 s / 2"
      by (simp add: power_int_diff)
    have "real_of_int a / real_of_int c = real_of_int a / real_of_int b / 2"
      using True by (simp add: c_def)
    also have "\<dots> = ?x * (power_int 2 s / 2)"
      by (simp add: ab)
    finally show ?thesis
      using True by (simp add: t_def h)
  next
    case False
    with ab show ?thesis by (simp add: c_def t_def)
  qed
  have "power_int 2 (bitlen p - 1) / power_int 2 (bitlen q) \<le> ?x"
    using bitlen_lower [OF p] bitlen_upper [OF q] p q
    by (intro frac_le) simp_all
  then have "power_int 2 (bitlen p - 1) / power_int 2 (bitlen q) * power_int 2 s \<le> ?x * power_int 2 s"
    by (intro mult_right_mono) simp_all
  moreover have "power_int 2 (bitlen p - 1) / power_int 2 (bitlen q) * power_int 2 s = (2::real) ^ 52"
  proof -
    have "power_int (2::real) (bitlen p - 1) / power_int 2 (bitlen q) * power_int 2 s
          = power_int 2 ((bitlen p - 1) - bitlen q + s)"
      by (simp add: power_int_add power_int_diff)
    also have "(bitlen p - 1) - bitlen q + s = 52"
      by (simp add: s_def)
    finally show ?thesis by simp
  qed
  ultimately have lb: "2 ^ 52 \<le> real_of_int a / real_of_int b"
    by (simp add: ab)
  have lc: "2 ^ 52 \<le> real_of_int a / real_of_int c"
  proof (cases "b * 2 ^ 53 \<le> a")
    case True
    then have "real_of_int (b * 2 ^ 53) \<le> real_of_int a"
      by (simp only: of_int_le_iff)
    then have "2 ^ 53 \<le> real_of_int a / real_of_int b"
      using bpos by (simp add: field_simps)
    then show ?thesis
      using True bpos by (simp add: c_def field_simps)
  next
    case False
    with lb show ?thesis by (simp add: c_def)
  qed
  let ?m = "round_half_even a c"
  have e: "\<bar>real_of_int ?m - real_of_int a / real_of_int c\<bar> \<le> 1 / 2"
    by (rule round_half_even_error [OF cpos])
  have "1 / 2 \<le> real_of_int a / real_of_int c / 2 ^ 53"
    using lc by (simp add: field_simps)
  with e have e': "\<bar>real_of_int ?m - real_of_int a / real_of_int c\<bar>
                   \<le> real_of_int a / real_of_int c / 2 ^ 53"
    by linarith
  have pk: "power_int (2::real) (k - t) = power_int 2 k / power_int 2 t"
    by (simp add: power_int_diff)
  have pt: "0 < power_int (2::real) t" "0 < power_int (2::real) k"
    by simp_all
  have "double_value (round_double p q k) - ?x * power_int 2 k
        = (real_of_int ?m - real_of_int a / real_of_int c) * (power_int 2 k / power_int 2 t)"
    using pt by (simp add: rd double_value_def pk ac field_simps)
  then have "\<bar>double_value (round_double p q k) - ?x * power_int 2 k\<bar>
        = \<bar>real_of_int ?m - real_of_int a / real_of_int c\<bar> * (power_int 2 k / power_int 2 t)"
    using pt by (simp add: abs_mult)
  also have "\<dots> \<le> real_of_int a / real_of_int c / 2 ^ 53 * (power_int 2 k / power_int 2 t)"
    using e' pt by (intro mult_right_mono) simp_all
  also have "\<dots> = ?x * power_int 2 k / 2 ^ 53"
    using pt by (simp add: ac field_simps)
  finally show "\<bar>double_value (round_double p q k) - ?x * power_int 2 k\<bar>
         \<le> ?x * power_int 2 k / 2 ^ 53" .
  have "(1::real) \<le> 2 ^ 52"
    by simp
  with e lc have "0 < real_of_int ?m"
    by linarith
  then show "0 < fst (round_double p q k)"
    by (simp add: rd)
qed


lemma hundred: "float_of_int 100 = (7036874417766400, - 46)"
  by code_simp

lemma hundred_value: "double_value (float_of_int 100) = 100"
  by (simp add: hundred double_value_def)

lemma truediv_self:
  assumes "0 < n"
  shows "float_truediv n n = (4503599627370496, - 52)"
proof -
  have e: "n * 2 ^ 53 = (2 * n) * 4503599627370496"
    by simp
  have d: "(n * 2 ^ 53) div (2 * n) = 4503599627370496"
    using assms by (simp only: e) simp
  have m: "(n * 2 ^ 53) mod (2 * n) = 0"
    by (simp only: e) simp
  have "round_half_even (n * 2 ^ 53) (2 * n) = 4503599627370496"
    using assms by (simp only: round_half_even_def Let_def d m) simp
  then show ?thesis
    using assms by (simp add: float_truediv_def round_double_def Let_def)
qed

lemma one_times_hundred:
  "float_mul (4503599627370496, - 52) (float_of_int 100) = (7036874417766400, - 46)"
  by code_simp

lemma percentage_full: "0 < n \<Longrightarrow> percentage n n = 100"
  by (simp add: percentage_def truediv_self one_times_hundred double_value_def)

lemma percentage_1_2: "percentage (Suc 0) (Suc (Suc 0)) = 50"
proof -
  have "percentage 1 2 = 50"
    by code_simp
  then show ?thesis
    by (simp add: numeral_2_eq_2)
qed

lemma percentage_1_3: "percentage 1 3 = 2345624805922133 / 70368744177664"
  by code_simp

lemma percentage_zero: "percentage 0 t = 0"
  by (simp add: percentage_def float_truediv_def float_mul_def round_double_def double_value_def)

lemma two_roundings:
  fixes X Y Z :: real
  assumes "0 \<le> X" and "\<bar>Y - X\<bar> \<le> X / 2 ^ 53" and "\<bar>Z - Y * 100\<bar> \<le> Y * 100 / 2 ^ 53"
  shows "\<bar>Z - 100 * X\<bar> \<le> 100 * X / 2 ^ 51"
proof -
  have p: "(2::real) ^ 53 = 9007199254740992" "(2::real) ^ 51 = 2251799813685248"
    by simp_all
  from assms show ?thesis
    unfolding p by linarith
qed

lemma percentage_error:
  assumes t: "0 < t"
  shows "\<bar>percentage c t - 100 * real c / real t\<bar> \<le> 100 * real c / real t / 2 ^ 51"
proof (cases "c = 0")
  case True
  then show ?thesis
    by (simp add: percentage_zero)
next
  case False
  let ?d = "float_truediv (int c) (int t)"
  let ?h = "float_of_int 100"
  define X where "X = real c / real t"
  define Y where "Y = double_value ?d"
  define Z where "Z = double_value (float_mul ?d ?h)"
  from False t have c: "0 < int c" and t': "0 < int t"
    by simp_all
  have X0: "0 \<le> X"
    by (simp add: X_def)
  have "\<bar>double_value (round_double (int c) (int t) 0)
          - real_of_int (int c) / real_of_int (int t) * power_int 2 0\<bar>
        \<le> real_of_int (int c) / real_of_int (int t) * power_int 2 0 / 2 ^ 53"
    by (rule round_double_error(1) [OF c t'])
  then have y: "\<bar>Y - X\<bar> \<le> X / 2 ^ 53"
    by (simp add: X_def Y_def float_truediv_def)
  have m: "0 < fst ?d"
    unfolding float_truediv_def by (rule round_double_error(2) [OF c t'])
  have hm: "0 < fst ?d * fst ?h"
    using m by (simp add: hundred)
  have prod: "real_of_int (fst ?d * fst ?h) / real_of_int 1 * power_int 2 (snd ?d + snd ?h)
              = Y * 100"
    by (simp add: Y_def double_value_def power_int_add flip: hundred_value)
  have "\<bar>double_value (round_double (fst ?d * fst ?h) 1 (snd ?d + snd ?h))
          - real_of_int (fst ?d * fst ?h) / real_of_int 1 * power_int 2 (snd ?d + snd ?h)\<bar>
        \<le> real_of_int (fst ?d * fst ?h) / real_of_int 1 * power_int 2 (snd ?d + snd ?h) / 2 ^ 53"
    by (rule round_double_error(1) [OF hm]) simp
  then have z: "\<bar>Z - Y * 100\<bar> \<le> Y * 100 / 2 ^ 53"
    by (simp only: prod Z_def float_mul_def)
  have "\<bar>Z - 100 * X\<bar> \<le> 100 * X / 2 ^ 51"
    by (rule two_roundings [OF X0 y z])
  then show ?thesis
    using t by (simp add: percentage_def X_def Z_def)
qed

lemma python_100_div_3:
  "double_value (float_truediv 100 3) = 4691249611844267 / 140737488355328"
  by code_simp

lemma text_hash_is_token_hash: "get_text_hash s = get_tokens s"
  by (simp add: get_text_hash_def get_tokens_def)

lemma fingerprints_False: "fingerprints ev False line = {get_text_hash line}"
  by (auto simp: fingerprints_def line_hashes_def get_text_hash_def md5_nonempty)

lemma matched_free_text_imp_code:
  assumes "matched ev False ls line"
  shows "matched ev True ls line"
proof -
  from assms obtain l' where l': "l' \<in> set ls" and eq: "get_text_hash line = get_text_hash l'"
    by (auto simp: matched_def index_keys_def fingerprints_False)
  from eq have "get_tokens line = get_tokens l'"
    by (simp add: text_hash_is_token_hash)
  with l' show ?thesis by (rule matched_by_tokens)
qed

lemma tokens_z3: "get_tokens ''z = 3'' = get_tokens ''x = 1''"
  by (simp add: get_tokens_def word_char_def code_point_def)

lemma c1_result:
  assumes "get_text_from_file ev fileA = Inr contentA"
    and "get_text_from_file ev fileB = Inr contentB"
    and "splitlines contentA = [''x = 1'', ''y = 2'']"
    and "splitlines contentB = [''x = 1'', ''z = 3'']"
  shows "compare_files ev fileA fileB True =
           Inr \<lparr>overlap_percentage = 100, overlap_count = 2,
                overlapping_lines = [''x = 1'', ''z = 3'']\<rparr>"
proof -
  have m1: "matched ev True [''x = 1'', ''y = 2''] ''x = 1''"
    by (rule matched_self) simp
  have m2: "matched ev True [''x = 1'', ''y = 2''] ''z = 3''"
    by (rule matched_by_tokens [where l' = "''x = 1''"]) (simp_all add: tokens_z3)
  show ?thesis
    by (simp add: compare_files_eq [OF assms(1,2)] assms(3,4) m1 m2 percentage_full)
qed

lemma is_word_Cons: "is_word (c # cs) = (word_char c \<and> list_all word_char cs)"
  by (simp add: is_word_def)

lemma sub_const_word:
  assumes "is_word u" and "r = [] \<or> \<not> word_char (hd r)"
  shows "re_sub_words (\<lambda>m. t) (u @ r) = t @ re_sub_words (\<lambda>m. t) r"
proof -
  from assms(1) obtain a u' where u: "u = a # u'" and a: "word_char a" and u': "\<forall>x\<in>set u'. word_char x"
    by (cases u) (auto simp: is_word_def list_all_iff)
  from assms(2) have "dropWhile word_char r = r"
    by (cases r) auto
  with u' have "dropWhile word_char (u' @ r) = r"
    by (simp add: dropWhile_append)
  with a show ?thesis by (simp add: u)
qed

lemma sub_starts_nonword:
  assumes "xs = [] \<or> \<not> word_char (hd xs)"
  shows "re_sub_words \<sigma> xs = [] \<or> \<not> word_char (hd (re_sub_words \<sigma> xs))"
  using assms by (cases xs) auto

lemma dropWhile_starts_nonword:
  "dropWhile word_char cs = [] \<or> \<not> word_char (hd (dropWhile word_char cs))"
  using hd_dropWhile [of word_char cs] by blast

lemma sub_const_renamed:
  assumes "renaming \<sigma>"
  shows "re_sub_words (\<lambda>m. t) (re_sub_words \<sigma> l) = re_sub_words (\<lambda>m. t) l"
  using assms
proof (induction \<sigma> l rule: re_sub_words.induct)
  case (1 repl)
  show ?case by simp
next
  case (2 repl c cs)
  show ?case
  proof (cases "word_char c")
    case True
    let ?w = "c # takeWhile word_char cs"
    let ?R = "re_sub_words repl (dropWhile word_char cs)"
    have "is_word ?w"
      using True by (auto simp: is_word_def list_all_iff dest: set_takeWhileD)
    with "2.prems" have w: "is_word (repl ?w)"
      by (simp add: renaming_def)
    have R: "?R = [] \<or> \<not> word_char (hd ?R)"
      by (rule sub_starts_nonword [OF dropWhile_starts_nonword])
    have "re_sub_words (\<lambda>m. t) (repl ?w @ ?R) = t @ re_sub_words (\<lambda>m. t) ?R"
      by (rule sub_const_word [OF w R])
    also have "re_sub_words (\<lambda>m. t) ?R = re_sub_words (\<lambda>m. t) (dropWhile word_char cs)"
      using "2.IH"(1) [OF True "2.prems"] .
    finally show ?thesis using True by simp
  next
    case False
    with 2 show ?thesis by simp
  qed
qed

lemma tokens_renamed: "renaming \<sigma> \<Longrightarrow> get_tokens (re_sub_words \<sigma> l) = get_tokens l"
  by (simp add: get_tokens_def sub_const_renamed)

lemma md5_TOKEN: "md5 ''TOKEN'' = ''94c8aa2452bccd82ee129b46f7c4be79''"
  by code_simp

lemma md5_plus: "md5 ''+'' = ''26b17225b626fb9238849fd60eabdf60''"
  by code_simp

lemma plus_not_matched: "\<not> matched ev False [''a''] ''+''"
  by (simp add: matched_def index_keys_def fingerprints_False get_text_hash_def
      word_char_def code_point_def md5_TOKEN md5_plus)

lemma compare_files_reads:
  assumes "compare_files ev file1 file2 c = Inr r"
  obtains content1 content2 where "get_text_from_file ev file1 = Inr content1"
    and "get_text_from_file ev file2 = Inr content2"
  using assms by (auto simp: compare_files_def split: sum.splits)

lemma filter_mono_length:
  assumes "\<And>x. P x \<Longrightarrow> Q x"
  shows "length (filter P xs) \<le> length (filter Q xs)"
  by (induction xs) (auto dest: assms)

lemma matched_by_text_hash:
  "l' \<in> set ls \<Longrightarrow> get_text_hash line = get_text_hash l' \<Longrightarrow> matched ev False ls line"
  by (auto simp: matched_def index_keys_def fingerprints_False)

lemma pdf_pages_eq: "pdf_pages acc pages = acc @ concat (gathered pages)"
  by (induction acc pages rule: pdf_pages.induct) simp_all

lemma docx_paragraphs_eq:
  "docx_paragraphs acc ps = acc @ concat (map (\<lambda>t. t @ [CHR 0x0A]) (gathered ps))"
  by (induction acc ps rule: docx_paragraphs.induct) simp_all

section \<open>Pairs and sorting\<close>

lemma read_code_files_from_ok:
  assumes "\<forall>p\<in>set ps. \<exists>t. get_text_from_file ev p = Inr t"
  shows "\<exists>fc. read_code_files_from ev acc ps = Inr fc \<and> dom fc = dom acc \<union> set ps"
  using assms
proof (induction ps arbitrary: acc)
  case Nil
  then show ?case by simp
next
  case (Cons p ps)
  from Cons.prems obtain t where t: "get_text_from_file ev p = Inr t" by auto
  from Cons.prems have "\<forall>p\<in>set ps. \<exists>t. get_text_from_file ev p = Inr t" by simp
  from Cons.IH [OF this, of "acc(p \<mapsto> t)"] obtain fc
    where fc: "read_code_files_from ev (acc(p \<mapsto> t)) ps = Inr fc"
      and d: "dom fc = dom (acc(p \<mapsto> t)) \<union> set ps"
    by blast
  have "dom fc = dom acc \<union> set (p # ps)"
    unfolding d by auto
  with fc show ?case
    by (simp add: t)
qed

lemma read_code_files_ok:
  assumes "\<forall>p\<in>set ps. \<exists>t. get_text_from_file ev p = Inr t"
  shows "\<exists>fc. read_code_files ev ps = Inr fc \<and> dom fc = set ps"
  using read_code_files_from_ok [OF assms, of Map.empty] by (simp add: read_code_files_def)

lemma similarities_ok:
  assumes "\<forall>pr\<in>set pairs. fst pr \<in> dom fc \<and> snd pr \<in> dom fc"
  shows "\<exists>raw. similarities ev fc pairs = Inr raw \<and> map (\<lambda>e. (fst e, fst (snd e))) raw = pairs"
  using assms
proof (induction pairs)
  case Nil
  then show ?case by simp
next
  case (Cons pr pairs)
  obtain a b where pr: "pr = (a, b)" by (cases pr)
  from Cons.prems pr obtain ca cb where c: "fc a = Some ca" "fc b = Some cb" by auto
  from Cons.prems have "\<forall>pr\<in>set pairs. fst pr \<in> dom fc \<and> snd pr \<in> dom fc" by simp
  from Cons.IH [OF this] obtain raw where
    "similarities ev fc pairs = Inr raw" "map (\<lambda>e. (fst e, fst (snd e))) raw = pairs" by blast
  then show ?case by (simp add: pr c Let_def)
qed

lemma set_combinations2: "set (combinations2 xs) \<subseteq> set xs \<times> set xs"
  by (induction xs) auto

lemma length_combinations2: "length (combinations2 xs) = length xs * (length xs - 1) div 2"
proof (induction xs)
  case Nil
  show ?case by simp
next
  case (Cons x xs)
  have "length xs + length xs * (length xs - 1) div 2 = (length xs + 1) * length xs div 2"
    by (cases "length xs") (simp_all add: algebra_simps)
  with Cons show ?case by simp
qed

lemma count_distinct: "distinct xs \<Longrightarrow> b \<in> set xs \<Longrightarrow> length (filter (\<lambda>y. y = b) xs) = 1"
  by (induction xs) (auto simp: filter_empty_conv)

lemma combinations2_no_self: "distinct xs \<Longrightarrow> (a, b) \<in> set (combinations2 xs) \<Longrightarrow> a \<noteq> b"
  by (induction xs) auto

lemma filter_outside:
  "a \<notin> set xs \<Longrightarrow> filter (\<lambda>p. p = (a, b) \<or> p = (b, a)) (combinations2 xs) = []"
  using set_combinations2 [of xs] by (auto simp: filter_empty_conv)

lemma filter_Pair: "filter P (map (Pair x) xs) = map (Pair x) (filter (\<lambda>y. P (x, y)) xs)"
  by (induction xs) auto

lemma combinations2_once:
  assumes "distinct xs" "a \<in> set xs" "b \<in> set xs" "a \<noteq> b"
  shows "length (filter (\<lambda>p. p = (a, b) \<or> p = (b, a)) (combinations2 xs)) = 1"
  using assms
proof (induction xs)
  case Nil
  then show ?case by simp
next
  case (Cons x xs)
  show ?case
  proof (cases "x = a \<or> x = b")
    case True
    then consider "x = a" | "x = b" by blast
    then show ?thesis
    proof cases
      case 1
      with Cons.prems have b: "b \<in> set xs" and na: "a \<notin> set xs" and d: "distinct xs" by auto
      have "filter (\<lambda>y. (a, y) = (a, b) \<or> (a, y) = (b, a)) xs = filter (\<lambda>y. y = b) xs"
        using Cons.prems(4) by (intro filter_cong) auto
      then show ?thesis
        using count_distinct [OF d b] filter_outside [OF na, of b]
        by (simp add: 1 filter_Pair)
    next
      case 2
      with Cons.prems have a: "a \<in> set xs" and nb: "b \<notin> set xs" and d: "distinct xs" by auto
      have "filter (\<lambda>y. (b, y) = (a, b) \<or> (b, y) = (b, a)) xs = filter (\<lambda>y. y = a) xs"
        using Cons.prems(4) by (intro filter_cong) auto
      moreover have "filter (\<lambda>p. p = (a, b) \<or> p = (b, a)) (combinations2 xs) = []"
        using set_combinations2 [of xs] nb by (auto simp: filter_empty_conv)
      ultimately show ?thesis
        using count_distinct [OF d a]
        by (simp add: 2 filter_Pair)
    qed
  next
    case False
    with Cons.prems have "a \<in> set xs" "b \<in> set xs" "distinct xs" by auto
    from Cons.IH [OF this(3,1,2) Cons.prems(4)] False show ?thesis
      by (simp add: filter_Pair)
  qed
qed

lemma index_pairs_Suc:
  "index_pairs (Suc n)
   = map (Pair 0) [1..<Suc n] @ map (\<lambda>p. (Suc (fst p), Suc (snd p))) (index_pairs n)"
proof -
  have "[0..<Suc n] = 0 # map Suc [0..<n]"
    by (simp add: upt_conv_Cons map_Suc_upt del: upt_Suc)
  then have "index_pairs (Suc n)
      = map (Pair 0) [Suc 0..<Suc n] @ concat (map (\<lambda>i. map (Pair (Suc i)) [Suc (Suc i)..<Suc n]) [0..<n])"
    by (simp add: index_pairs_def comp_def del: upt_Suc)
  also have "concat (map (\<lambda>i. map (Pair (Suc i)) [Suc (Suc i)..<Suc n]) [0..<n])
      = map (\<lambda>p. (Suc (fst p), Suc (snd p))) (index_pairs n)"
  proof -
    have inner: "map (Pair (Suc i)) [Suc (Suc i)..<Suc n] = map (\<lambda>j. (Suc i, Suc j)) [Suc i..<n]" for i
      by (simp only: map_Suc_upt [symmetric] map_map comp_def)
    show ?thesis
      by (simp add: index_pairs_def map_concat comp_def inner del: upt_Suc)
  qed
  finally show ?thesis by simp
qed

lemma combinations2_index_pairs:
  "combinations2 xs = map (\<lambda>(i, j). (xs ! i, xs ! j)) (index_pairs (length xs))"
proof (induction xs)
  case Nil
  show ?case by (simp add: index_pairs_def)
next
  case (Cons x xs)
  have "[1..<Suc (length xs)] = map Suc [0..<length xs]"
    by (simp only: map_Suc_upt One_nat_def)
  then have "map (\<lambda>(i, j). ((x # xs) ! i, (x # xs) ! j)) (map (Pair 0) [1..<Suc (length xs)])
      = map (Pair x) (map (nth xs) [0..<length xs])"
    by (simp add: comp_def del: upt_Suc)
  also have "\<dots> = map (Pair x) xs"
    by (simp only: map_nth)
  finally have first: "map (\<lambda>(i, j). ((x # xs) ! i, (x # xs) ! j)) (map (Pair 0) [1..<Suc (length xs)])
      = map (Pair x) xs" .
  have rest: "map (\<lambda>(i, j). ((x # xs) ! i, (x # xs) ! j))
                (map (\<lambda>p. (Suc (fst p), Suc (snd p))) (index_pairs (length xs)))
      = combinations2 xs"
    by (simp add: Cons.IH comp_def case_prod_beta)
  show ?case
    by (simp only: length_Cons index_pairs_Suc map_append first rest combinations2.simps)
qed

lemma filter_sorted_reverse:
  "filter P (sorted_reverse key xs) = sorted_reverse key (filter P xs)"
  by (simp add: sorted_reverse_def filter_sort flip: rev_filter)

lemma length_sorted_reverse: "length (sorted_reverse key xs) = length xs"
  by (simp add: sorted_reverse_def)

lemma set_sorted_reverse: "set (sorted_reverse key xs) = set xs"
  by (simp add: sorted_reverse_def)

lemma sorted_reverse_stable:
  "filter (\<lambda>e. key e = q) (sorted_reverse key xs) = filter (\<lambda>e. key e = q) xs"
  by (simp add: sorted_reverse_def sort_key_stable flip: rev_filter)

lemma sorted_reverse_descending:
  "sorted_wrt (\<lambda>x y. key y \<le> key x) (sorted_reverse key xs)"
proof -
  have "sorted (map key (sort_key key (rev xs)))"
    by (rule sorted_sort_key)
  then show ?thesis
    by (simp add: sorted_reverse_def sorted_wrt_rev sorted_map)
qed

section \<open>Lines that do not match\<close>

lemma fingerprints_unparsed:
  assumes "ast_parse ev line = Inl e"
  shows "fingerprints ev True line = {get_tokens line}"
  using assms
  by (auto simp: fingerprints_def line_hashes_def get_ast_hash_def get_tokens_def md5_nonempty)

lemma fingerprints_parsed:
  assumes "ast_parse ev line = Inr (Obj cls fs)"
  shows "fingerprints ev True line
         = {md5 (ast_dump ev (redact Field (Obj cls fs))), get_tokens line}"
  using assms
  by (auto simp: fingerprints_def line_hashes_def get_ast_hash_def get_tokens_def md5_nonempty)

lemma matched_single:
  "matched ev c [l1] l2 = (fingerprints ev c l2 \<inter> fingerprints ev c l1 \<noteq> {})"
  by (simp add: matched_def index_keys_def)

lemma md5_var_foo: "md5 ''TOKEN TOKEN = TOKEN;'' = ''2eb9d56223a62585f6bac54615ef12cf''"
  by code_simp

lemma md5_var_dollar_foo: "md5 ''TOKEN $TOKEN = TOKEN;'' = ''8368185b8dca12c6c91f12db71f585cd''"
  by code_simp

lemma tokens_var_foo: "get_tokens ''var foo = 1;'' = ''2eb9d56223a62585f6bac54615ef12cf''"
  by (simp add: get_tokens_def word_char_def code_point_def md5_var_foo)

lemma tokens_var_dollar_foo: "get_tokens ''var $foo = 1;'' = ''8368185b8dca12c6c91f12db71f585cd''"
  by (simp add: get_tokens_def word_char_def code_point_def md5_var_dollar_foo)

lemma js_not_matched:
  "\<not> matched (files_env fs) True [''var foo = 1;''] ''var $foo = 1;''"
proof -
  have p1: "ast_parse (files_env fs) ''var foo = 1;'' = Inl (Exn ''SyntaxError'')"
    by (simp add: files_env_def sample_parse_def)
  have p2: "ast_parse (files_env fs) ''var $foo = 1;'' = Inl (Exn ''SyntaxError'')"
    by (simp add: files_env_def sample_parse_def)
  show ?thesis
    by (simp add: matched_single fingerprints_unparsed [OF p1] fingerprints_unparsed [OF p2]
        tokens_var_foo tokens_var_dollar_foo)
qed

lemma dump_import_ab:
  "py_dump (redact Field (sample_import ''ab''))
   = ''Module(body=[Import(names=[alias(name='ab')])], type_ignores=[])''"
  by code_simp

lemma dump_import_a_b:
  "py_dump (redact Field (sample_import (''a'' @ [CHR 0xB7] @ ''b'')))
   = ''Module(body=[Import(names=[alias(name='a'' @ [CHR 0xB7] @ ''b')])], type_ignores=[])''"
  by code_simp

lemma md5_dump_ab:
  "md5 ''Module(body=[Import(names=[alias(name='ab')])], type_ignores=[])''
   = ''d34f7f47302c161eea7c9c868bf760de''"
  by code_simp

lemma md5_dump_a_b:
  "md5 (''Module(body=[Import(names=[alias(name='a'' @ [CHR 0xB7] @ ''b')])], type_ignores=[])'')
   = ''57bea6b3dc0e3f4bbb331a2855da970d''"
  by code_simp

lemma md5_import_ab: "md5 ''TOKEN TOKEN'' = ''3fd2b26bb7d09667e527fba1f3a55570''"
  by code_simp

lemma md5_import_a_b: "md5 (''TOKEN TOKEN'' @ [CHR 0xB7] @ ''TOKEN'') = ''85659fb0f95ada1f44eb06e9c4f4ee35''"
  by code_simp


lemma tokens_import_ab: "get_tokens ''import ab'' = ''3fd2b26bb7d09667e527fba1f3a55570''"
  by (simp add: get_tokens_def word_char_def code_point_def md5_import_ab)

lemma tokens_import_a_b:
  "get_tokens (''import a'' @ [CHR 0xB7] @ ''b'') = ''85659fb0f95ada1f44eb06e9c4f4ee35''"
proof -
  have "get_tokens (''import a'' @ [CHR 0xB7] @ ''b'') = md5 (''TOKEN TOKEN'' @ [CHR 0xB7] @ ''TOKEN'')"
    by (simp add: get_tokens_def word_char_def code_point_def)
  then show ?thesis
    by (simp only: md5_import_a_b)
qed

lemma fingerprints_import:
  assumes "ast_parse ev line = Inr (sample_import name)"
  shows "fingerprints ev True line
         = {md5 (ast_dump ev (redact Field (sample_import name))), get_tokens line}"
  using assms unfolding sample_import_def by (rule fingerprints_parsed)

lemma import_not_matched:
  "\<not> matched (files_env fs) True [''import ab''] (''import a'' @ [CHR 0xB7] @ ''b'')"
proof -
  have d: "ast_dump (files_env fs) = py_dump"
    by (simp add: files_env_def)
  have p1: "ast_parse (files_env fs) ''import ab'' = Inr (sample_import ''ab'')"
    by (simp add: files_env_def sample_parse_def)
  have p2: "ast_parse (files_env fs) (''import a'' @ [CHR 0xB7] @ ''b'')
            = Inr (sample_import (''a'' @ [CHR 0xB7] @ ''b''))"
    by (simp add: files_env_def sample_parse_def)
  have f1: "fingerprints (files_env fs) True ''import ab''
            = {''d34f7f47302c161eea7c9c868bf760de'', ''3fd2b26bb7d09667e527fba1f3a55570''}"
    by (simp only: fingerprints_import [OF p1] d dump_import_ab md5_dump_ab tokens_import_ab)
  have f2: "fingerprints (files_env fs) True (''import a'' @ [CHR 0xB7] @ ''b'')
            = {''57bea6b3dc0e3f4bbb331a2855da970d'', ''85659fb0f95ada1f44eb06e9c4f4ee35''}"
    by (simp only: fingerprints_import [OF p2] d dump_import_a_b md5_dump_a_b tokens_import_a_b)
  have "{''57bea6b3dc0e3f4bbb331a2855da970d'', ''85659fb0f95ada1f44eb06e9c4f4ee35''}
        \<inter> {''d34f7f47302c161eea7c9c868bf760de'', ''3fd2b26bb7d09667e527fba1f3a55570''}
        = ({} :: string set)"
    by simp
  then show ?thesis
    by (simp only: matched_single f1 f2 not_not)
qed

lemma no_match_result:
  assumes "get_text_from_file ev file1 = Inr content1"
    and "get_text_from_file ev file2 = Inr content2"
    and "splitlines content1 = [l1]"
    and "splitlines content2 = [l2]"
    and "\<not> matched ev c [l1] l2"
  shows "compare_files ev file1 file2 c
         = Inr \<lparr>overlap_percentage = 0, overlap_count = 0, overlapping_lines = []\<rparr>"
  by (simp add: compare_files_eq [OF assms(1,2)] assms(3,4,5) percentage_zero)

section \<open>The two comparators agree\<close>

text \<open>
  Claim C2. The scalar comparator \<open>compare_two_codes\<close> and the full comparator
  \<open>compare_files\<close> run the same matching algorithm: when the two files are read as the
  texts \<open>code1\<close> and \<open>code2\<close>, \<open>compare_files\<close> returns a result, and the pair
  (percentage, count) that \<open>compare_two_codes\<close> returns on the two texts is the pair of
  the \<open>overlap_percentage\<close> and \<open>overlap_count\<close> fields of that result, for either
  content class.
\<close>

theorem scalar_comparator_agrees:
  assumes "get_text_from_file ev file1 = Inr code1"
    and "get_text_from_file ev file2 = Inr code2"
  shows "\<exists>r. compare_files ev file1 file2 is_code = Inr r
             \<and> compare_two_codes ev code1 code2 is_code = (overlap_percentage r, overlap_count r)"
  by (simp add: compare_files_eq [OF assms] compare_two_codes_eq)

theorem scalar_comparator_agrees_witness:
  "get_text_from_file (files_env [(''a.py'', ''x = 1''), (''b.py'', ''z = 3'')]) ''a.py'' = Inr ''x = 1''
   \<and> get_text_from_file (files_env [(''a.py'', ''x = 1''), (''b.py'', ''z = 3'')]) ''b.py'' = Inr ''z = 3''
   \<and> (\<exists>r. compare_files (files_env [(''a.py'', ''x = 1''), (''b.py'', ''z = 3'')]) ''a.py'' ''b.py'' True = Inr r
          \<and> compare_two_codes (files_env [(''a.py'', ''x = 1''), (''b.py'', ''z = 3'')]) ''x = 1'' ''z = 3'' True
              = (overlap_percentage r, overlap_count r))"
proof -
  have h1: "get_text_from_file (files_env [(''a.py'', ''x = 1''), (''b.py'', ''z = 3'')]) ''a.py'' = Inr ''x = 1''"
    by code_simp
  have h2: "get_text_from_file (files_env [(''a.py'', ''x = 1''), (''b.py'', ''z = 3'')]) ''b.py'' = Inr ''z = 3''"
    by code_simp
  from h1 h2 scalar_comparator_agrees [OF h1 h2, of True] show ?thesis
    by blast
qed

section \<open>Properties of a comparison\<close>

text \<open>
  Claim C4 (self-similarity). For every non-empty text \<open>X\<close> and either content class,
  comparing \<open>X\<close> with itself gives an overlap percentage of 100: a file that is read as
  \<open>X\<close> and compared with itself yields a result whose \<open>overlap_percentage\<close> is 100.
\<close>

theorem self_similarity:
  assumes "get_text_from_file ev file = Inr X" and "X \<noteq> []"
  shows "\<exists>r. compare_files ev file file is_code = Inr r \<and> overlap_percentage r = 100"
  using splitlines_nonempty [OF assms(2)]
  by (simp add: compare_files_eq [OF assms(1) assms(1)] filter_matched_self percentage_full)

theorem self_similarity_witness:
  "get_text_from_file (files_env [(''a.py'', ''x = 1'')]) ''a.py'' = Inr ''x = 1''
   \<and> ''x = 1'' \<noteq> []
   \<and> (\<exists>r. compare_files (files_env [(''a.py'', ''x = 1'')]) ''a.py'' ''a.py'' True = Inr r
          \<and> overlap_percentage r = 100)"
proof -
  have h1: "get_text_from_file (files_env [(''a.py'', ''x = 1'')]) ''a.py'' = Inr ''x = 1''"
    by code_simp
  have h2: "''x = 1'' \<noteq> []"
    by simp
  from h1 h2 self_similarity [OF h1 h2, of True] show ?thesis
    by blast
qed

text \<open>
  Claim C5 says that \<open>overlap_percentage\<close> equals \<open>100 * overlap_count / total_lines\<close>
  whenever \<open>total_lines > 0\<close>. The code computes \<open>(overlap_count / total_lines) * 100\<close>
  in double precision, rounding the quotient and then the product. With one matched line
  out of three the result is the double \<open>33.33333333333333\<close>, which is neither the
  number \<open>100 / 3\<close> nor the double \<open>33.333333333333336\<close> that Python gives for
  \<open>100 * 1 / 3\<close>.
\<close>

theorem percentage_counterexample:
  "compare_files
     (files_env [(''A.txt'', ''a''), (''B.txt'', [CHR ''a'', CHR 0x0A, CHR ''+'', CHR 0x0A, CHR ''+''])])
     ''A.txt'' ''B.txt'' False
   = Inr \<lparr>overlap_percentage = 2345624805922133 / 70368744177664, overlap_count = 1,
          overlapping_lines = [''a'']\<rparr>
   \<and> length (splitlines [CHR ''a'', CHR 0x0A, CHR ''+'', CHR 0x0A, CHR ''+'']) = 3
   \<and> (2345624805922133 / 70368744177664 :: real) \<noteq> 100 * real (1 :: nat) / real (3 :: nat)
   \<and> (2345624805922133 / 70368744177664 :: real) \<noteq> double_value (float_truediv 100 3)"
proof -
  let ?ev = "files_env [(''A.txt'', ''a''),
                        (''B.txt'', [CHR ''a'', CHR 0x0A, CHR ''+'', CHR 0x0A, CHR ''+''])]"
  have ha: "get_text_from_file ?ev ''A.txt'' = Inr ''a''"
    by code_simp
  have hb: "get_text_from_file ?ev ''B.txt'' = Inr [CHR ''a'', CHR 0x0A, CHR ''+'', CHR 0x0A, CHR ''+'']"
    by code_simp
  have la: "splitlines ''a'' = [''a'']"
    by code_simp
  have lb: "splitlines [CHR ''a'', CHR 0x0A, CHR ''+'', CHR 0x0A, CHR ''+''] = [''a'', ''+'', ''+'']"
    by code_simp
  have m: "matched ?ev False [''a''] ''a''"
    by (rule matched_self) simp
  have p: "percentage (Suc 0) (Suc (Suc (Suc 0))) = 2345624805922133 / 70368744177664"
    using percentage_1_3 by (simp add: numeral_3_eq_3)
  have r: "compare_files ?ev ''A.txt'' ''B.txt'' False
           = Inr \<lparr>overlap_percentage = 2345624805922133 / 70368744177664, overlap_count = 1,
                  overlapping_lines = [''a'']\<rparr>"
    using compare_files_eq [OF ha hb, of False] m by (simp add: la lb plus_not_matched p)
  have n: "length (splitlines [CHR ''a'', CHR 0x0A, CHR ''+'', CHR 0x0A, CHR ''+'']) = 3"
    by (simp add: lb)
  have e: "(2345624805922133 / 70368744177664 :: real) \<noteq> 100 * real (1 :: nat) / real (3 :: nat)"
    by simp
  have f: "(2345624805922133 / 70368744177664 :: real) \<noteq> double_value (float_truediv 100 3)"
    by (simp add: python_100_div_3)
  from r n e f show ?thesis
    by (intro conjI)
qed

text \<open>
  Claim C5, amended. For every comparison result, \<open>overlap_percentage\<close> is the value of
  \<open>(overlap_count / total_lines) * 100\<close> in double precision when \<open>total_lines > 0\<close>: the
  quotient rounded to the nearest double, and its product with 100 rounded again. It
  differs from \<open>100 * overlap_count / total_lines\<close> by at most that number divided by
  \<open>2 ^ 51\<close>. It is 0 when \<open>total_lines = 0\<close>, where \<open>total_lines\<close> is the number of lines
  of the candidate (second) text; in particular, against the empty candidate text the
  percentage and the count are both 0, for every reference text and either content class.
\<close>

theorem percentage_amended:
  assumes "get_text_from_file ev file1 = Inr content1"
    and "get_text_from_file ev file2 = Inr content2"
  shows "\<exists>r. compare_files ev file1 file2 is_code = Inr r
           \<and> (0 < length (splitlines content2) \<longrightarrow>
                overlap_percentage r
                = double_value
                    (float_mul
                       (float_truediv (int (overlap_count r)) (int (length (splitlines content2))))
                       (float_of_int 100))
                \<and> \<bar>overlap_percentage r
                     - 100 * real (overlap_count r) / real (length (splitlines content2))\<bar>
                  \<le> 100 * real (overlap_count r) / real (length (splitlines content2)) / 2 ^ 51)
           \<and> (length (splitlines content2) = 0 \<longrightarrow> overlap_percentage r = 0)
           \<and> (content2 = [] \<longrightarrow> overlap_percentage r = 0 \<and> overlap_count r = 0)"
proof -
  let ?n = "length (splitlines content2)"
  let ?c = "length (filter (matched ev is_code (splitlines content1)) (splitlines content2))"
  let ?r = "\<lparr>overlap_percentage = percentage ?c ?n, overlap_count = ?c,
             overlapping_lines = filter (matched ev is_code (splitlines content1)) (splitlines content2)\<rparr>"
  have r: "compare_files ev file1 file2 is_code = Inr ?r"
    by (rule compare_files_eq [OF assms])
  have pos: "overlap_percentage ?r
             = double_value (float_mul (float_truediv (int (overlap_count ?r)) (int ?n)) (float_of_int 100))
             \<and> \<bar>overlap_percentage ?r - 100 * real (overlap_count ?r) / real ?n\<bar>
               \<le> 100 * real (overlap_count ?r) / real ?n / 2 ^ 51"
    if "0 < ?n"
    using that percentage_error [OF that, of ?c] by (simp add: percentage_def)
  have zero: "overlap_percentage ?r = 0" if "?n = 0"
    using that by (simp add: percentage_def)
  have empty: "overlap_percentage ?r = 0 \<and> overlap_count ?r = 0" if "content2 = []"
    using that by (simp add: percentage_def splitlines_Nil)
  from r pos zero empty show ?thesis
    by blast
qed

theorem percentage_amended_witness:
  "get_text_from_file (files_env [(''a.py'', ''x = 1''), (''b.py'', ''z = 3''), (''e.py'', [])]) ''a.py''
     = Inr ''x = 1''
   \<and> get_text_from_file (files_env [(''a.py'', ''x = 1''), (''b.py'', ''z = 3''), (''e.py'', [])]) ''b.py''
     = Inr ''z = 3''
   \<and> get_text_from_file (files_env [(''a.py'', ''x = 1''), (''b.py'', ''z = 3''), (''e.py'', [])]) ''e.py''
     = Inr []
   \<and> 0 < length (splitlines ''z = 3'')
   \<and> (\<exists>r. compare_files (files_env [(''a.py'', ''x = 1''), (''b.py'', ''z = 3''), (''e.py'', [])])
              ''a.py'' ''b.py'' False = Inr r
          \<and> overlap_percentage r
              = double_value
                  (float_mul
                     (float_truediv (int (overlap_count r)) (int (length (splitlines ''z = 3''))))
                     (float_of_int 100))
          \<and> \<bar>overlap_percentage r
               - 100 * real (overlap_count r) / real (length (splitlines ''z = 3''))\<bar>
            \<le> 100 * real (overlap_count r) / real (length (splitlines ''z = 3'')) / 2 ^ 51)
   \<and> (\<exists>r. compare_files (files_env [(''a.py'', ''x = 1''), (''b.py'', ''z = 3''), (''e.py'', [])])
              ''a.py'' ''e.py'' False = Inr r
          \<and> overlap_percentage r = 0 \<and> overlap_count r = 0)"
proof -
  let ?ev = "files_env [(''a.py'', ''x = 1''), (''b.py'', ''z = 3''), (''e.py'', [])]"
  have ha: "get_text_from_file ?ev ''a.py'' = Inr ''x = 1''"
    by code_simp
  have hb: "get_text_from_file ?ev ''b.py'' = Inr ''z = 3''"
    by code_simp
  have he: "get_text_from_file ?ev ''e.py'' = Inr []"
    by code_simp
  have n: "0 < length (splitlines ''z = 3'')"
    by code_simp
  from ha hb he n percentage_amended [OF ha hb, of False] percentage_amended [OF ha he, of False]
  show ?thesis
    by blast
qed

section \<open>The scenario of the two assignments\<close>

text \<open>
  Claim C1 says that for the structured class, the reference lines \<open>x = 1\<close>, \<open>y = 2\<close>
  and the candidate lines \<open>x = 1\<close>, \<open>z = 3\<close> give an overlap count of 1, a percentage of
  50 and the single matched line \<open>x = 1\<close>. In the code the candidate line \<open>z = 3\<close> is
  matched as well: its token-shape hash is that of \<open>TOKEN = TOKEN\<close>, which every line of
  the reference also has. At the files below, with a parser that accepts all three
  assignments, the result has count 2, percentage 100 and both lines matched, and so is
  not the result the claim states.
\<close>

theorem scenario_counterexample:
  "compare_files
     (files_env [(''A.py'', ''x = 1'' @ [CHR 0x0A] @ ''y = 2''),
                 (''B.py'', ''x = 1'' @ [CHR 0x0A] @ ''z = 3'')])
     ''A.py'' ''B.py'' True
   = Inr \<lparr>overlap_percentage = 100, overlap_count = 2,
          overlapping_lines = [''x = 1'', ''z = 3'']\<rparr>
   \<and> compare_files
     (files_env [(''A.py'', ''x = 1'' @ [CHR 0x0A] @ ''y = 2''),
                 (''B.py'', ''x = 1'' @ [CHR 0x0A] @ ''z = 3'')])
     ''A.py'' ''B.py'' True
   \<noteq> Inr \<lparr>overlap_percentage = 50, overlap_count = 1, overlapping_lines = [''x = 1'']\<rparr>"
proof -
  let ?ev = "files_env [(''A.py'', ''x = 1'' @ [CHR 0x0A] @ ''y = 2''),
                        (''B.py'', ''x = 1'' @ [CHR 0x0A] @ ''z = 3'')]"
  have ha: "get_text_from_file ?ev ''A.py'' = Inr (''x = 1'' @ [CHR 0x0A] @ ''y = 2'')"
    by code_simp
  have hb: "get_text_from_file ?ev ''B.py'' = Inr (''x = 1'' @ [CHR 0x0A] @ ''z = 3'')"
    by code_simp
  have la: "splitlines (''x = 1'' @ [CHR 0x0A] @ ''y = 2'') = [''x = 1'', ''y = 2'']"
    by code_simp
  have lb: "splitlines (''x = 1'' @ [CHR 0x0A] @ ''z = 3'') = [''x = 1'', ''z = 3'']"
    by code_simp
  have r: "compare_files ?ev ''A.py'' ''B.py'' True
           = Inr \<lparr>overlap_percentage = 100, overlap_count = 2,
                  overlapping_lines = [''x = 1'', ''z = 3'']\<rparr>"
    by (rule c1_result [OF ha hb la lb])
  from r show ?thesis
    by simp
qed

text \<open>
  Claim C1, amended. For the structured class, comparing a reference document with the
  lines \<open>x = 1\<close>, \<open>y = 2\<close> against a candidate document with the lines \<open>x = 1\<close>,
  \<open>z = 3\<close> returns an overlap count of 2 out of 2 candidate lines, a percentage of 100
  and the matched lines \<open>x = 1\<close>, \<open>z = 3\<close>, whatever the parser does with the lines.
\<close>

theorem scenario_amended:
  assumes "get_text_from_file ev fileA = Inr contentA"
    and "get_text_from_file ev fileB = Inr contentB"
    and "splitlines contentA = [''x = 1'', ''y = 2'']"
    and "splitlines contentB = [''x = 1'', ''z = 3'']"
  shows "compare_files ev fileA fileB True =
           Inr \<lparr>overlap_percentage = 100, overlap_count = 2,
                overlapping_lines = [''x = 1'', ''z = 3'']\<rparr>
         \<and> length (splitlines contentB) = 2"
  using c1_result [OF assms] assms(4) by simp

theorem scenario_amended_witness:
  "get_text_from_file
     (files_env [(''A.py'', ''x = 1'' @ [CHR 0x0A] @ ''y = 2''),
                 (''B.py'', ''x = 1'' @ [CHR 0x0D, CHR 0x0A] @ ''z = 3'' @ [CHR 0x0A])]) ''A.py''
     = Inr (''x = 1'' @ [CHR 0x0A] @ ''y = 2'')
   \<and> get_text_from_file
     (files_env [(''A.py'', ''x = 1'' @ [CHR 0x0A] @ ''y = 2''),
                 (''B.py'', ''x = 1'' @ [CHR 0x0D, CHR 0x0A] @ ''z = 3'' @ [CHR 0x0A])]) ''B.py''
     = Inr (''x = 1'' @ [CHR 0x0D, CHR 0x0A] @ ''z = 3'' @ [CHR 0x0A])
   \<and> splitlines (''x = 1'' @ [CHR 0x0A] @ ''y = 2'') = [''x = 1'', ''y = 2'']
   \<and> splitlines (''x = 1'' @ [CHR 0x0D, CHR 0x0A] @ ''z = 3'' @ [CHR 0x0A]) = [''x = 1'', ''z = 3'']
   \<and> compare_files
     (files_env [(''A.py'', ''x = 1'' @ [CHR 0x0A] @ ''y = 2''),
                 (''B.py'', ''x = 1'' @ [CHR 0x0D, CHR 0x0A] @ ''z = 3'' @ [CHR 0x0A])])
     ''A.py'' ''B.py'' True
     = Inr \<lparr>overlap_percentage = 100, overlap_count = 2,
            overlapping_lines = [''x = 1'', ''z = 3'']\<rparr>"
proof -
  let ?ev = "files_env [(''A.py'', ''x = 1'' @ [CHR 0x0A] @ ''y = 2''),
                        (''B.py'', ''x = 1'' @ [CHR 0x0D, CHR 0x0A] @ ''z = 3'' @ [CHR 0x0A])]"
  have ha: "get_text_from_file ?ev ''A.py'' = Inr (''x = 1'' @ [CHR 0x0A] @ ''y = 2'')"
    by code_simp
  have hb: "get_text_from_file ?ev ''B.py''
            = Inr (''x = 1'' @ [CHR 0x0D, CHR 0x0A] @ ''z = 3'' @ [CHR 0x0A])"
    by code_simp
  have la: "splitlines (''x = 1'' @ [CHR 0x0A] @ ''y = 2'') = [''x = 1'', ''y = 2'']"
    by code_simp
  have lb: "splitlines (''x = 1'' @ [CHR 0x0D, CHR 0x0A] @ ''z = 3'' @ [CHR 0x0A])
            = [''x = 1'', ''z = 3'']"
    by code_simp
  from ha hb la lb scenario_amended [OF ha hb la lb] show ?thesis
    by blast
qed

section \<open>Renamed identifiers\<close>

text \<open>
  Claim C6 (token-masking invariance) says that for the structured class, two single-line
  documents that differ only by a renaming of identifiers compare at 100 percent. An
  identifier need not be a run of word characters. In JavaScript \<open>$foo\<close> is an
  identifier: \<open>var foo = 1;\<close> and \<open>var $foo = 1;\<close> are both rejected by the Python
  parser, and their masks \<open>TOKEN TOKEN = TOKEN;\<close> and \<open>TOKEN $TOKEN = TOKEN;\<close> differ.
  In Python the middle dot (code point 183) may occur inside an identifier and is not a
  word character: \<open>import ab\<close> and the same line with \<open>ab\<close> renamed to \<open>a\<close>, middle
  dot, \<open>b\<close> both parse, the module name of an \<open>alias\<close> node is not redacted, and the
  masks differ as well. Both comparisons give 0 percent.
\<close>

theorem renaming_counterexample:
  "compare_files (files_env [(''a.js'', ''var foo = 1;''), (''b.js'', ''var $foo = 1;'')])
     ''a.js'' ''b.js'' True
   = Inr \<lparr>overlap_percentage = 0, overlap_count = 0, overlapping_lines = []\<rparr>
   \<and> compare_files
       (files_env [(''a.py'', ''import ab''), (''b.py'', ''import a'' @ [CHR 0xB7] @ ''b'')])
       ''a.py'' ''b.py'' True
     = Inr \<lparr>overlap_percentage = 0, overlap_count = 0, overlapping_lines = []\<rparr>"
proof -
  let ?js = "files_env [(''a.js'', ''var foo = 1;''), (''b.js'', ''var $foo = 1;'')]"
  let ?py = "files_env [(''a.py'', ''import ab''), (''b.py'', ''import a'' @ [CHR 0xB7] @ ''b'')]"
  have j1: "get_text_from_file ?js ''a.js'' = Inr ''var foo = 1;''"
    by code_simp
  have j2: "get_text_from_file ?js ''b.js'' = Inr ''var $foo = 1;''"
    by code_simp
  have j3: "splitlines ''var foo = 1;'' = [''var foo = 1;'']"
    by code_simp
  have j4: "splitlines ''var $foo = 1;'' = [''var $foo = 1;'']"
    by code_simp
  have p1: "get_text_from_file ?py ''a.py'' = Inr ''import ab''"
    by code_simp
  have p2: "get_text_from_file ?py ''b.py'' = Inr (''import a'' @ [CHR 0xB7] @ ''b'')"
    by code_simp
  have p3: "splitlines ''import ab'' = [''import ab'']"
    by code_simp
  have p4: "splitlines (''import a'' @ [CHR 0xB7] @ ''b'') = [''import a'' @ [CHR 0xB7] @ ''b'']"
    by code_simp
  show ?thesis
    by (intro conjI no_match_result [OF j1 j2 j3 j4 js_not_matched]
        no_match_result [OF p1 p2 p3 p4 import_not_matched])
qed

text \<open>
  Claim C6, amended. For the structured class, two single-line documents that differ only
  by a renaming of words, each maximal run of word characters (letters, digits and the
  underscore) replaced by another non-empty run of word characters, compare at 100
  percent: when the reference has the one line \<open>line\<close> and the candidate the one line
  obtained from it by replacing every word by its image under such a renaming, the
  result has an \<open>overlap_percentage\<close> of 100. The example is
  \<open>def foo(x): return x+1\<close> against \<open>def bar(y): return y+1\<close>.
\<close>

theorem token_masking_invariance:
  assumes "renaming \<sigma>"
    and "get_text_from_file ev file1 = Inr content1"
    and "get_text_from_file ev file2 = Inr content2"
    and "splitlines content1 = [line]"
    and "splitlines content2 = [re_sub_words \<sigma> line]"
  shows "\<exists>r. compare_files ev file1 file2 True = Inr r \<and> overlap_percentage r = 100"
proof -
  have "matched ev True [line] (re_sub_words \<sigma> line)"
    by (rule matched_by_tokens [where l' = line]) (simp_all add: tokens_renamed [OF assms(1)])
  then show ?thesis
    by (simp add: compare_files_eq [OF assms(2,3)] assms(4,5) percentage_full)
qed

theorem token_masking_invariance_witness:
  "renaming rename_foo_bar
   \<and> get_text_from_file
       (files_env [(''a.py'', ''def foo(x): return x+1''), (''b.py'', ''def bar(y): return y+1'')])
       ''a.py'' = Inr ''def foo(x): return x+1''
   \<and> get_text_from_file
       (files_env [(''a.py'', ''def foo(x): return x+1''), (''b.py'', ''def bar(y): return y+1'')])
       ''b.py'' = Inr ''def bar(y): return y+1''
   \<and> splitlines ''def foo(x): return x+1'' = [''def foo(x): return x+1'']
   \<and> splitlines ''def bar(y): return y+1'' = [re_sub_words rename_foo_bar ''def foo(x): return x+1'']
   \<and> (\<exists>r. compare_files
              (files_env [(''a.py'', ''def foo(x): return x+1''), (''b.py'', ''def bar(y): return y+1'')])
              ''a.py'' ''b.py'' True = Inr r
          \<and> overlap_percentage r = 100)"
proof -
  let ?ev = "files_env [(''a.py'', ''def foo(x): return x+1''), (''b.py'', ''def bar(y): return y+1'')]"
  have rn: "renaming rename_foo_bar"
    by (simp add: renaming_def rename_foo_bar_def is_word_def word_char_def code_point_def)
  have ha: "get_text_from_file ?ev ''a.py'' = Inr ''def foo(x): return x+1''"
    by code_simp
  have hb: "get_text_from_file ?ev ''b.py'' = Inr ''def bar(y): return y+1''"
    by code_simp
  have la: "splitlines ''def foo(x): return x+1'' = [''def foo(x): return x+1'']"
    by code_simp
  have lb: "splitlines ''def bar(y): return y+1''
            = [re_sub_words rename_foo_bar ''def foo(x): return x+1'']"
    by code_simp
  from rn ha hb la lb token_masking_invariance [OF rn ha hb la lb] show ?thesis
    by blast
qed

section \<open>Asymmetry\<close>

text \<open>
  Claim C7 (asymmetry). There are texts \<open>X\<close> and \<open>Y\<close> and a content class for which
  comparing \<open>X\<close> against \<open>Y\<close> and comparing \<open>Y\<close> against \<open>X\<close> give different
  overlap percentages. With the free-text class, \<open>X\<close> the two lines \<open>a\<close>, \<open>+\<close> and
  \<open>Y\<close> the single line \<open>a\<close>: the one line of \<open>Y\<close> is found in the index of \<open>X\<close>
  (100 percent), and one of the two lines of \<open>X\<close> is found in the index of \<open>Y\<close>
  (50 percent).
\<close>

theorem asymmetry:
  "\<exists>ev fileX fileY X Y is_code rxy ryx.
      get_text_from_file ev fileX = Inr X \<and> get_text_from_file ev fileY = Inr Y
      \<and> compare_files ev fileX fileY is_code = Inr rxy
      \<and> compare_files ev fileY fileX is_code = Inr ryx
      \<and> overlap_percentage rxy \<noteq> overlap_percentage ryx"
proof -
  let ?ev = "files_env [(''x.txt'', [CHR ''a'', CHR 0x0A, CHR ''+'']), (''y.txt'', ''a'')]"
  have hx: "get_text_from_file ?ev ''x.txt'' = Inr [CHR ''a'', CHR 0x0A, CHR ''+'']"
    by code_simp
  have hy: "get_text_from_file ?ev ''y.txt'' = Inr ''a''"
    by code_simp
  have lx: "splitlines [CHR ''a'', CHR 0x0A, CHR ''+''] = [''a'', ''+'']"
    by code_simp
  have ly: "splitlines ''a'' = [''a'']"
    by code_simp
  have m1: "matched ?ev False [''a'', ''+''] ''a''"
    by (rule matched_self) simp
  have m2: "matched ?ev False [''a''] ''a''"
    by (rule matched_self) simp
  have rxy: "compare_files ?ev ''x.txt'' ''y.txt'' False
             = Inr \<lparr>overlap_percentage = 100, overlap_count = 1, overlapping_lines = [''a'']\<rparr>"
    using compare_files_eq [OF hx hy, of False] m1 by (simp add: lx ly percentage_full)
  have ryx: "compare_files ?ev ''y.txt'' ''x.txt'' False
             = Inr \<lparr>overlap_percentage = 50, overlap_count = 1, overlapping_lines = [''a'']\<rparr>"
    using compare_files_eq [OF hy hx, of False] m2 by (simp add: lx ly plus_not_matched percentage_1_2)
  have "overlap_percentage \<lparr>overlap_percentage = 100, overlap_count = 1, overlapping_lines = [''a'']\<rparr>
        \<noteq> overlap_percentage \<lparr>overlap_percentage = 50, overlap_count = 1, overlapping_lines = [''a'']\<rparr>"
    by simp
  with hx hy rxy ryx show ?thesis
    by blast
qed

section \<open>The free-text hash is the token-shape hash\<close>

text \<open>
  Claim C10. \<open>get_text_hash\<close> and \<open>get_tokens\<close> are the same computation: on every
  string they return the same digest. Hence every free-text match is a structured match
  on the same lines: when the same two files are compared under both content classes,
  the lines matched as free text are among the lines matched as code, and the free-text
  count is at most the structured count.
\<close>

theorem text_hash_is_token_shape_hash:
  assumes "compare_files ev file1 file2 False = Inr rF"
    and "compare_files ev file1 file2 True = Inr rT"
  shows "get_text_hash s = get_tokens s
         \<and> set (overlapping_lines rF) \<subseteq> set (overlapping_lines rT)
         \<and> overlap_count rF \<le> overlap_count rT"
proof -
  from assms(1) obtain content1 content2
    where h: "get_text_from_file ev file1 = Inr content1" "get_text_from_file ev file2 = Inr content2"
    by (rule compare_files_reads)
  from assms(1) have rF: "overlapping_lines rF
      = filter (matched ev False (splitlines content1)) (splitlines content2)"
    "overlap_count rF = length (filter (matched ev False (splitlines content1)) (splitlines content2))"
    by (auto simp: compare_files_eq [OF h])
  from assms(2) have rT: "overlapping_lines rT
      = filter (matched ev True (splitlines content1)) (splitlines content2)"
    "overlap_count rT = length (filter (matched ev True (splitlines content1)) (splitlines content2))"
    by (auto simp: compare_files_eq [OF h])
  have "set (overlapping_lines rF) \<subseteq> set (overlapping_lines rT)"
    by (auto simp: rF rT intro: matched_free_text_imp_code)
  moreover have "overlap_count rF \<le> overlap_count rT"
    unfolding rF rT by (rule filter_mono_length) (rule matched_free_text_imp_code)
  ultimately show ?thesis
    by (simp add: text_hash_is_token_hash)
qed

theorem text_hash_is_token_shape_hash_witness:
  "compare_files (files_env [(''a.txt'', ''x = 1''), (''b.txt'', ''z = 3'')]) ''a.txt'' ''b.txt'' False
     = Inr \<lparr>overlap_percentage = 100, overlap_count = 1, overlapping_lines = [''z = 3'']\<rparr>
   \<and> compare_files (files_env [(''a.txt'', ''x = 1''), (''b.txt'', ''z = 3'')]) ''a.txt'' ''b.txt'' True
     = Inr \<lparr>overlap_percentage = 100, overlap_count = 1, overlapping_lines = [''z = 3'']\<rparr>
   \<and> get_text_hash ''z = 3'' = get_tokens ''z = 3''
   \<and> set (overlapping_lines \<lparr>overlap_percentage = 100, overlap_count = 1, overlapping_lines = [''z = 3'']\<rparr>)
       \<subseteq> set (overlapping_lines \<lparr>overlap_percentage = 100, overlap_count = 1, overlapping_lines = [''z = 3'']\<rparr>)
   \<and> overlap_count \<lparr>overlap_percentage = 100, overlap_count = 1, overlapping_lines = [''z = 3'']\<rparr>
       \<le> overlap_count \<lparr>overlap_percentage = 100, overlap_count = 1, overlapping_lines = [''z = 3'']\<rparr>"
proof -
  let ?ev = "files_env [(''a.txt'', ''x = 1''), (''b.txt'', ''z = 3'')]"
  have ha: "get_text_from_file ?ev ''a.txt'' = Inr ''x = 1''"
    by code_simp
  have hb: "get_text_from_file ?ev ''b.txt'' = Inr ''z = 3''"
    by code_simp
  have la: "splitlines ''x = 1'' = [''x = 1'']"
    by code_simp
  have lb: "splitlines ''z = 3'' = [''z = 3'']"
    by code_simp
  have mF: "matched ?ev False [''x = 1''] ''z = 3''"
    by (rule matched_by_text_hash [where l' = "''x = 1''"])
       (simp_all add: text_hash_is_token_hash tokens_z3)
  have mT: "matched ?ev True [''x = 1''] ''z = 3''"
    by (rule matched_by_tokens [where l' = "''x = 1''"]) (simp_all add: tokens_z3)
  have rF: "compare_files ?ev ''a.txt'' ''b.txt'' False
            = Inr \<lparr>overlap_percentage = 100, overlap_count = 1, overlapping_lines = [''z = 3'']\<rparr>"
    using compare_files_eq [OF ha hb, of False] mF by (simp add: la lb percentage_full)
  have rT: "compare_files ?ev ''a.txt'' ''b.txt'' True
            = Inr \<lparr>overlap_percentage = 100, overlap_count = 1, overlapping_lines = [''z = 3'']\<rparr>"
    using compare_files_eq [OF ha hb, of True] mT by (simp add: la lb percentage_full)
  from rF rT text_hash_is_token_shape_hash [OF rF rT, of "''z = 3''"] show ?thesis
    by blast
qed

section \<open>Failures of the extraction\<close>

text \<open>
  Claim C3 says that text extraction never propagates an error, whatever the document and
  its declared extension, and returns the empty text whenever extraction fails. Both
  parts fail on the code. The file \<open>notes.py\<close> is read with \<open>open\<close> outside any
  \<open>try\<close>, and the error of the read reaches the caller. The file \<open>scan.pdf\<close> fails at
  its second page, and the text returned is that of the first page, not the empty text.
\<close>

theorem extraction_counterexample:
  "get_text_from_file flaky_env ''notes.py'' = Inl (Exn ''FileNotFoundError'')
   \<and> get_text_from_file flaky_env ''scan.pdf'' = Inr ''page one''"
  by code_simp

text \<open>
  Claim C3, amended. For a document whose declared extension, in lower case, is \<open>pdf\<close>
  or \<open>docx\<close>, text extraction never propagates an error: it returns the text gathered
  from the pages (or the paragraphs, each followed by a newline) that come before the
  first failing one, which is the empty text when the container cannot be opened.
\<close>

theorem extraction_amended:
  "(file_ext file_path = ''pdf'' \<longrightarrow>
      get_text_from_file ev file_path
      = Inr (case fitz_open ev file_path of
               Inl e \<Rightarrow> []
             | Inr pages \<Rightarrow> concat (gathered pages)))
   \<and> (file_ext file_path = ''docx'' \<longrightarrow>
      get_text_from_file ev file_path
      = Inr (case docx_open ev file_path of
               Inl e \<Rightarrow> []
             | Inr paragraphs \<Rightarrow> concat (map (\<lambda>t. t @ [CHR 0x0A]) (gathered paragraphs))))"
  by (auto simp: get_text_from_file_def extract_text_from_pdf_def extract_text_from_docx_def
      pdf_pages_eq docx_paragraphs_eq split: sum.splits)

theorem extraction_amended_witness:
  "file_ext ''scan.pdf'' = ''pdf''
   \<and> get_text_from_file flaky_env ''scan.pdf''
       = Inr (case fitz_open flaky_env ''scan.pdf'' of
                Inl e \<Rightarrow> []
              | Inr pages \<Rightarrow> concat (gathered pages))
   \<and> file_ext ''essay.DOCX'' = ''docx''
   \<and> get_text_from_file flaky_env ''essay.DOCX''
       = Inr (case docx_open flaky_env ''essay.DOCX'' of
                Inl e \<Rightarrow> []
              | Inr paragraphs \<Rightarrow> concat (map (\<lambda>t. t @ [CHR 0x0A]) (gathered paragraphs)))"
proof -
  have e1: "file_ext ''scan.pdf'' = ''pdf''"
    by code_simp
  have e2: "file_ext ''essay.DOCX'' = ''docx''"
    by code_simp
  from e1 e2 extraction_amended [of "''scan.pdf''" flaky_env]
    extraction_amended [of "''essay.DOCX''" flaky_env]
  show ?thesis
    by blast
qed

section \<open>The batch grouper\<close>

text \<open>
  Claim C8 (grouping completeness). For every list of \<open>N\<close> distinct documents, each of
  which can be read, the batch grouper returns exactly \<open>N (N - 1) / 2\<close> similarity edges:
  every unordered pair of distinct documents appears in exactly one edge, and no edge
  pairs a document with itself.
\<close>

theorem grouping_completeness:
  assumes "distinct file_paths"
    and "\<forall>p\<in>set file_paths. \<exists>t. get_text_from_file ev p = Inr t"
  shows "\<exists>es. group_similar_files ev file_paths = Inr es
           \<and> length es = length file_paths * (length file_paths - 1) div 2
           \<and> (\<forall>a\<in>set file_paths. \<forall>b\<in>set file_paths. a \<noteq> b \<longrightarrow>
                length (filter (\<lambda>e. (fst e, fst (snd e)) = (a, b) \<or> (fst e, fst (snd e)) = (b, a)) es)
                = 1)
           \<and> (\<forall>e\<in>set es. fst e \<noteq> fst (snd e) \<and> fst e \<in> set file_paths
                          \<and> fst (snd e) \<in> set file_paths)"
proof -
  let ?ends = "\<lambda>e :: string \<times> string \<times> real. (fst e, fst (snd e))"
  let ?key = "\<lambda>x :: string \<times> string \<times> real. snd (snd x)"
  from read_code_files_ok [OF assms(2)] obtain fc
    where fc: "read_code_files ev file_paths = Inr fc" and dom: "dom fc = set file_paths"
    by blast
  have "\<forall>pr\<in>set (combinations2 file_paths). fst pr \<in> dom fc \<and> snd pr \<in> dom fc"
    using set_combinations2 [of file_paths] by (auto simp: dom)
  from similarities_ok [OF this, of ev] obtain raw
    where raw: "similarities ev fc (combinations2 file_paths) = Inr raw"
      and ends: "map ?ends raw = combinations2 file_paths"
    by blast
  let ?es = "sorted_reverse ?key raw"
  have es: "group_similar_files ev file_paths = Inr ?es"
    by (simp add: group_similar_files_def fc raw)
  have "length raw = length (combinations2 file_paths)"
    using arg_cong [OF ends, of length] by simp
  then have len: "length ?es = length file_paths * (length file_paths - 1) div 2"
    by (simp add: length_sorted_reverse length_combinations2)
  have once: "length (filter (\<lambda>e. ?ends e = (a, b) \<or> ?ends e = (b, a)) ?es) = 1"
    if "a \<in> set file_paths" "b \<in> set file_paths" "a \<noteq> b" for a b
  proof -
    have "length (filter (\<lambda>e. ?ends e = (a, b) \<or> ?ends e = (b, a)) ?es)
          = length (filter (\<lambda>e. ?ends e = (a, b) \<or> ?ends e = (b, a)) raw)"
      by (simp only: filter_sorted_reverse length_sorted_reverse)
    also have "\<dots> = length (filter (\<lambda>p. p = (a, b) \<or> p = (b, a)) (map ?ends raw))"
      by (simp add: filter_map comp_def)
    also have "\<dots> = 1"
      unfolding ends by (rule combinations2_once [OF assms(1) that])
    finally show ?thesis .
  qed
  have mem: "fst e \<noteq> fst (snd e) \<and> fst e \<in> set file_paths \<and> fst (snd e) \<in> set file_paths"
    if "e \<in> set ?es" for e
  proof -
    from that have "e \<in> set raw"
      by (simp add: set_sorted_reverse)
    then have "?ends e \<in> set (map ?ends raw)"
      by simp
    then have in_c: "(fst e, fst (snd e)) \<in> set (combinations2 file_paths)"
      by (simp only: ends)
    with set_combinations2 [of file_paths] combinations2_no_self [OF assms(1) in_c]
    show ?thesis by auto
  qed
  from es len once mem show ?thesis
    by blast
qed

theorem grouping_completeness_witness:
  "distinct [''a.py'', ''b.py'', ''c.py'']
   \<and> get_text_from_file
         (files_env [(''a.py'', ''x = 1''), (''b.py'', ''z = 3''), (''c.py'', ''a + b'')]) ''a.py''
       = Inr ''x = 1''
   \<and> get_text_from_file
         (files_env [(''a.py'', ''x = 1''), (''b.py'', ''z = 3''), (''c.py'', ''a + b'')]) ''b.py''
       = Inr ''z = 3''
   \<and> get_text_from_file
         (files_env [(''a.py'', ''x = 1''), (''b.py'', ''z = 3''), (''c.py'', ''a + b'')]) ''c.py''
       = Inr ''a + b''
   \<and> (\<exists>es. group_similar_files
               (files_env [(''a.py'', ''x = 1''), (''b.py'', ''z = 3''), (''c.py'', ''a + b'')])
               [''a.py'', ''b.py'', ''c.py''] = Inr es
          \<and> length es = 3
          \<and> length (filter (\<lambda>e. (fst e, fst (snd e)) = (''c.py'', ''a.py'')
                                \<or> (fst e, fst (snd e)) = (''a.py'', ''c.py'')) es) = 1
          \<and> (\<forall>e\<in>set es. fst e \<noteq> fst (snd e)))"
proof -
  let ?ev = "files_env [(''a.py'', ''x = 1''), (''b.py'', ''z = 3''), (''c.py'', ''a + b'')]"
  have d: "distinct [''a.py'', ''b.py'', ''c.py'']"
    by simp
  have ha: "get_text_from_file ?ev ''a.py'' = Inr ''x = 1''"
    by code_simp
  have hb: "get_text_from_file ?ev ''b.py'' = Inr ''z = 3''"
    by code_simp
  have hc: "get_text_from_file ?ev ''c.py'' = Inr ''a + b''"
    by code_simp
  have r: "\<forall>p\<in>set [''a.py'', ''b.py'', ''c.py'']. \<exists>t. get_text_from_file ?ev p = Inr t"
    using ha hb hc by simp
  from grouping_completeness [OF d r] obtain es
    where es: "group_similar_files ?ev [''a.py'', ''b.py'', ''c.py''] = Inr es"
      and len: "length es = length [''a.py'', ''b.py'', ''c.py'']
                  * (length [''a.py'', ''b.py'', ''c.py''] - 1) div 2"
      and once: "\<forall>a\<in>set [''a.py'', ''b.py'', ''c.py'']. \<forall>b\<in>set [''a.py'', ''b.py'', ''c.py'']. a \<noteq> b \<longrightarrow>
                length (filter (\<lambda>e. (fst e, fst (snd e)) = (a, b) \<or> (fst e, fst (snd e)) = (b, a)) es)
                = 1"
      and mem: "\<forall>e\<in>set es. fst e \<noteq> fst (snd e) \<and> fst e \<in> set [''a.py'', ''b.py'', ''c.py'']
                          \<and> fst (snd e) \<in> set [''a.py'', ''b.py'', ''c.py'']"
    by blast
  from len have len3: "length es = 3"
    by simp
  from once have one: "length (filter (\<lambda>e. (fst e, fst (snd e)) = (''c.py'', ''a.py'')
                                \<or> (fst e, fst (snd e)) = (''a.py'', ''c.py'')) es) = 1"
    by simp
  from mem have ns: "\<forall>e\<in>set es. fst e \<noteq> fst (snd e)"
    by blast
  from d ha hb hc es len3 one ns show ?thesis
    by blast
qed

text \<open>
  Claim C9 (grouping order). The edge list returned by the batch grouper is sorted so
  that the percentage is non-increasing, and edges of equal percentage keep the order in
  which the loop generated them, which is the lexicographic order of the pairs of
  positions \<open>i < j\<close> of the input list.
\<close>

theorem grouping_order:
  assumes "\<forall>p\<in>set file_paths. \<exists>t. get_text_from_file ev p = Inr t"
  shows "\<exists>file_contents raw es.
           read_code_files ev file_paths = Inr file_contents
           \<and> similarities ev file_contents (combinations2 file_paths) = Inr raw
           \<and> group_similar_files ev file_paths = Inr es
           \<and> map (\<lambda>e. (fst e, fst (snd e))) raw
               = map (\<lambda>(i, j). (file_paths ! i, file_paths ! j)) (index_pairs (length file_paths))
           \<and> sorted_wrt (\<lambda>x y. snd (snd y) \<le> snd (snd x)) es
           \<and> (\<forall>q. filter (\<lambda>e. snd (snd e) = q) es = filter (\<lambda>e. snd (snd e) = q) raw)"
proof -
  let ?ends = "\<lambda>e :: string \<times> string \<times> real. (fst e, fst (snd e))"
  let ?key = "\<lambda>x :: string \<times> string \<times> real. snd (snd x)"
  from read_code_files_ok [OF assms] obtain fc
    where fc: "read_code_files ev file_paths = Inr fc" and dom: "dom fc = set file_paths"
    by blast
  have "\<forall>pr\<in>set (combinations2 file_paths). fst pr \<in> dom fc \<and> snd pr \<in> dom fc"
    using set_combinations2 [of file_paths] by (auto simp: dom)
  from similarities_ok [OF this, of ev] obtain raw
    where raw: "similarities ev fc (combinations2 file_paths) = Inr raw"
      and ends: "map ?ends raw = combinations2 file_paths"
    by blast
  have es: "group_similar_files ev file_paths = Inr (sorted_reverse ?key raw)"
    by (simp add: group_similar_files_def fc raw)
  have lex: "map ?ends raw
             = map (\<lambda>(i, j). (file_paths ! i, file_paths ! j)) (index_pairs (length file_paths))"
    by (simp only: ends combinations2_index_pairs [symmetric])
  have desc: "sorted_wrt (\<lambda>x y. ?key y \<le> ?key x) (sorted_reverse ?key raw)"
    by (rule sorted_reverse_descending)
  have stable: "\<forall>q. filter (\<lambda>e. ?key e = q) (sorted_reverse ?key raw) = filter (\<lambda>e. ?key e = q) raw"
    by (simp add: sorted_reverse_stable)
  from fc raw es lex desc stable show ?thesis
    by blast
qed

theorem grouping_order_witness:
  "get_text_from_file
       (files_env [(''a.py'', ''x = 1''), (''b.py'', ''z = 3''), (''c.py'', ''a + b'')]) ''a.py''
     = Inr ''x = 1''
   \<and> get_text_from_file
         (files_env [(''a.py'', ''x = 1''), (''b.py'', ''z = 3''), (''c.py'', ''a + b'')]) ''b.py''
       = Inr ''z = 3''
   \<and> get_text_from_file
         (files_env [(''a.py'', ''x = 1''), (''b.py'', ''z = 3''), (''c.py'', ''a + b'')]) ''c.py''
       = Inr ''a + b''
   \<and> (\<exists>raw es.
         group_similar_files
           (files_env [(''a.py'', ''x = 1''), (''b.py'', ''z = 3''), (''c.py'', ''a + b'')])
           [''a.py'', ''b.py'', ''c.py''] = Inr es
         \<and> map (\<lambda>e. (fst e, fst (snd e))) raw
             = [(''a.py'', ''b.py''), (''a.py'', ''c.py''), (''b.py'', ''c.py'')]
         \<and> sorted_wrt (\<lambda>x y. snd (snd y) \<le> snd (snd x)) es
         \<and> (\<forall>q. filter (\<lambda>e. snd (snd e) = q) es = filter (\<lambda>e. snd (snd e) = q) raw))"
proof -
  let ?ev = "files_env [(''a.py'', ''x = 1''), (''b.py'', ''z = 3''), (''c.py'', ''a + b'')]"
  let ?ps = "[''a.py'', ''b.py'', ''c.py'']"
  have ha: "get_text_from_file ?ev ''a.py'' = Inr ''x = 1''"
    by code_simp
  have hb: "get_text_from_file ?ev ''b.py'' = Inr ''z = 3''"
    by code_simp
  have hc: "get_text_from_file ?ev ''c.py'' = Inr ''a + b''"
    by code_simp
  have r: "\<forall>p\<in>set ?ps. \<exists>t. get_text_from_file ?ev p = Inr t"
    using ha hb hc by simp
  have ip: "map (\<lambda>(i, j). (?ps ! i, ?ps ! j)) (index_pairs (length ?ps))
            = [(''a.py'', ''b.py''), (''a.py'', ''c.py''), (''b.py'', ''c.py'')]"
    by code_simp
  from grouping_order [OF r] obtain fc raw es
    where es: "group_similar_files ?ev ?ps = Inr es"
      and m: "map (\<lambda>e. (fst e, fst (snd e))) raw
             = map (\<lambda>(i, j). (?ps ! i, ?ps ! j)) (index_pairs (length ?ps))"
      and desc: "sorted_wrt (\<lambda>x y. snd (snd y) \<le> snd (snd x)) es"
      and stable: "\<forall>q. filter (\<lambda>e. snd (snd e) = q) es = filter (\<lambda>e. snd (snd e) = q) raw"
    by blast
  from m ip have m': "map (\<lambda>e. (fst e, fst (snd e))) raw
             = [(''a.py'', ''b.py''), (''a.py'', ''c.py''), (''b.py'', ''c.py'')]"
    by (rule trans)
  show ?thesis
  proof (intro conjI exI)
    show "get_text_from_file ?ev ''a.py'' = Inr ''x = 1''"
      by (rule ha)
    show "get_text_from_file ?ev ''b.py'' = Inr ''z = 3''"
      by (rule hb)
    show "get_text_from_file ?ev ''c.py'' = Inr ''a + b''"
      by (rule hc)
    show "group_similar_files ?ev ?ps = Inr es"
      by (rule es)
    show "map (\<lambda>e. (fst e, fst (snd e))) raw
          = [(''a.py'', ''b.py''), (''a.py'', ''c.py''), (''b.py'', ''c.py'')]"
      by (rule m')
    show "sorted_wrt (\<lambda>x y. snd (snd y) \<le> snd (snd x)) es"
      by (rule desc)
    show "\<forall>q. filter (\<lambda>e. snd (snd e) = q) es = filter (\<lambda>e. snd (snd e) = q) raw"
      by (rule stable)
  qed
qed

end
